theory Spec2Isabelle
  imports Main "HOL-Library.Word"
begin

unbundle bit_operations_syntax

section \<open>Dynamic values of the bus (GVariant)\<close>

text \<open>
  A \<^verbatim>\<open>GVariant\<close> is GLib's immutable, reference-counted dynamic value. Only the
  shapes the client inspects are distinguished. A \<^verbatim>\<open>double\<close> is kept as its IEEE-754
  binary64 bit pattern, which \<^verbatim>\<open>g_variant_new_double\<close> and \<^verbatim>\<open>g_variant_get_double\<close>
  store and return unchanged.
\<close>

type_synonym int32_t = "32 word"
type_synonym uint32_t = "32 word"
type_synonym uint8_t = "8 word"
type_synonym int16_t = "16 word"
type_synonym uint64_t = "64 word"
type_synonym double = "64 word"

datatype gvariant =
    GString string
  | GInt32 int32_t
  | GUInt32 uint32_t
  | GByte uint8_t
  | GInt16 int16_t
  | GUInt64 uint64_t
  | GBoolean bool
  | GDouble double
  | GObjectPath string
  | GVariantBox gvariant
  | GArray "gvariant list"
  | GTuple "gvariant list"

text \<open>
  Functions of GLib and of the C++ standard library that the client calls and whose
  results it only passes on. They are parameters of the model.
\<close>

record externals =
  g_utf8_validate :: "string \<Rightarrow> bool"
  g_variant_is_object_path :: "string \<Rightarrow> bool"
  g_dbus_is_name :: "string \<Rightarrow> bool"
  g_dbus_is_interface_name :: "string \<Rightarrow> bool"
  g_dbus_is_member_name :: "string \<Rightarrow> bool"
  g_variant_print :: "gvariant \<Rightarrow> string"
  int_to_string :: "int \<Rightarrow> string"
  double_to_string :: "double \<Rightarrow> string"


section \<open>The shadow value store (\<^verbatim>\<open>variants_map_t\<close>) and \<^verbatim>\<open>GDBusVariant\<close>\<close>

text \<open>
  A \<^verbatim>\<open>GDBusVariant\<close> object has no data members: it is identified by its address
  (\<open>key_t\<close>). A \<^verbatim>\<open>variant_t\<close> holds a \<^verbatim>\<open>GVariant*\<close>, possibly null, and owns one
  reference to it. The state consists of the map \<^verbatim>\<open>variants\<close> and of GLib's heap of
  GVariant objects: their contents and their reference counts.
\<close>

type_synonym key_t = nat
type_synonym gptr = nat
type_synonym variant_t = "gptr option"

record vstate =
  variants :: "key_t \<rightharpoonup> variant_t"
  ref_count :: "gptr \<Rightarrow> nat"
  gdata :: "gptr \<Rightarrow> gvariant"

definition g_variant_ref :: "gptr \<Rightarrow> vstate \<Rightarrow> vstate" where
  "g_variant_ref g s = s\<lparr>ref_count := (ref_count s)(g := ref_count s g + 1)\<rparr>"

definition g_variant_unref :: "gptr \<Rightarrow> vstate \<Rightarrow> vstate" where
  "g_variant_unref g s = s\<lparr>ref_count := (ref_count s)(g := ref_count s g - 1)\<rparr>"

text \<open>The copy constructor of \<^verbatim>\<open>variant_t\<close>: the copy holds the same pointer.\<close>

definition variant_copy :: "variant_t \<Rightarrow> vstate \<Rightarrow> vstate" where
  "variant_copy v s = (case v of None \<Rightarrow> s | Some g \<Rightarrow> g_variant_ref g s)"

text \<open>\<^verbatim>\<open>variant_t::unref\<close>, which is also what the destructor does.\<close>

definition variant_unref :: "variant_t \<Rightarrow> vstate \<Rightarrow> vstate" where
  "variant_unref v s = (case v of None \<Rightarrow> s | Some g \<Rightarrow> g_variant_unref g s)"

text \<open>
  \<^verbatim>\<open>variants_map_t::insert\<close> is \<^verbatim>\<open>variants.emplace(key, std::move(v))\<close>.
  \<^verbatim>\<open>std::map::emplace\<close> stores nothing when the key is present; the reference that
  \<open>v\<close> owned is then released with the temporary (or with the discarded node).
\<close>

definition insert_v :: "key_t \<Rightarrow> variant_t \<Rightarrow> vstate \<Rightarrow> vstate" where
  "insert_v key v s =
     (case variants s key of
        Some _ \<Rightarrow> variant_unref v s
      | None \<Rightarrow> s\<lparr>variants := (variants s)(key \<mapsto> v)\<rparr>)"

text \<open>
  \<^verbatim>\<open>variants_map_t::at\<close> returns a copy of the stored \<^verbatim>\<open>variant_t\<close>, or an empty
  \<^verbatim>\<open>variant_t\<close> when there is no entry.
\<close>

definition at_v :: "key_t \<Rightarrow> vstate \<Rightarrow> variant_t \<times> vstate" where
  "at_v key s =
     (case variants s key of
        Some v \<Rightarrow> (v, variant_copy v s)
      | None \<Rightarrow> (None, s))"

definition erase_v :: "key_t \<Rightarrow> vstate \<Rightarrow> vstate" where
  "erase_v key s =
     (case variants s key of
        Some v \<Rightarrow> variant_unref v (s\<lparr>variants := (variants s)(key := None)\<rparr>)
      | None \<Rightarrow> s)"

text \<open>\<^verbatim>\<open>GDBusVariant\<close>: destructor, copy constructor and copy assignment.\<close>

definition GDBusVariant_dtor :: "key_t \<Rightarrow> vstate \<Rightarrow> vstate" where
  "GDBusVariant_dtor this s = erase_v this s"

definition GDBusVariant_copy :: "key_t \<Rightarrow> key_t \<Rightarrow> vstate \<Rightarrow> vstate" where
  "GDBusVariant_copy this v s = (let (t, s1) = at_v v s in insert_v this t s1)"

definition GDBusVariant_assign :: "key_t \<Rightarrow> key_t \<Rightarrow> vstate \<Rightarrow> vstate" where
  "GDBusVariant_assign this v s =
     (let s1 = erase_v this s; (t, s2) = at_v v s1 in insert_v this t s2)"

text \<open>
  The getters. Each takes a copy with \<^verbatim>\<open>at\<close>, which lives until the end of the
  \<^verbatim>\<open>if\<close> statement; the result is the returned value, the \<^verbatim>\<open>result\<close> flag and the
  state.
\<close>

definition getInt :: "key_t \<Rightarrow> vstate \<Rightarrow> int32_t \<times> bool \<times> vstate" where
  "getInt this s =
     (let (v, s1) = at_v this s;
          (ret, result) =
            (case v of
               None \<Rightarrow> (0, False)
             | Some g \<Rightarrow> (case gdata s1 g of GInt32 i \<Rightarrow> (i, True) | _ \<Rightarrow> (0, False)))
      in (ret, result, variant_unref v s1))"

definition getBool :: "key_t \<Rightarrow> vstate \<Rightarrow> bool \<times> bool \<times> vstate" where
  "getBool this s =
     (let (v, s1) = at_v this s;
          (ret, result) =
            (case v of
               None \<Rightarrow> (False, False)
             | Some g \<Rightarrow> (case gdata s1 g of GBoolean b \<Rightarrow> (b, True) | _ \<Rightarrow> (False, False)))
      in (ret, result, variant_unref v s1))"

definition getDouble :: "key_t \<Rightarrow> vstate \<Rightarrow> double \<times> bool \<times> vstate" where
  "getDouble this s =
     (let (v, s1) = at_v this s;
          (ret, result) =
            (case v of
               None \<Rightarrow> (0, False)
             | Some g \<Rightarrow> (case gdata s1 g of GDouble d \<Rightarrow> (d, True) | _ \<Rightarrow> (0, False)))
      in (ret, result, variant_unref v s1))"

definition getString :: "key_t \<Rightarrow> vstate \<Rightarrow> string \<times> bool \<times> vstate" where
  "getString this s =
     (let (v, s1) = at_v this s;
          (ret, result) =
            (case v of
               None \<Rightarrow> ([], False)
             | Some g \<Rightarrow> (case gdata s1 g of GString str \<Rightarrow> (str, True) | _ \<Rightarrow> ([], False)))
      in (ret, result, variant_unref v s1))"

definition print :: "externals \<Rightarrow> key_t \<Rightarrow> vstate \<Rightarrow> string \<times> vstate" where
  "print X this s =
     (let (v, s1) = at_v this s;
          ret = (case v of None \<Rightarrow> [] | Some g \<Rightarrow> g_variant_print X (gdata s1 g))
      in (ret, variant_unref v s1))"


section \<open>Properties of the shadow value store\<close>

lemma variant_copy_unref [simp]: "variant_unref v (variant_copy v s) = s"
  by (cases v) (simp_all add: variant_unref_def variant_copy_def g_variant_ref_def g_variant_unref_def)

lemma variant_unref_None [simp]: "variant_unref None s = s"
  by (simp add: variant_unref_def)

lemma variant_copy_None [simp]: "variant_copy None s = s"
  by (simp add: variant_copy_def)

lemma at_v_release [simp]: "variant_unref (fst (at_v k s)) (snd (at_v k s)) = s"
  by (simp add: at_v_def split: option.splits)

lemma variants_variant_copy [simp]: "variants (variant_copy v s) = variants s"
  by (cases v) (simp_all add: variant_copy_def g_variant_ref_def)

lemma variants_variant_unref [simp]: "variants (variant_unref v s) = variants s"
  by (cases v) (simp_all add: variant_unref_def g_variant_unref_def)

lemma gdata_variant_copy [simp]: "gdata (variant_copy v s) = gdata s"
  by (cases v) (simp_all add: variant_copy_def g_variant_ref_def)

lemma gdata_variant_unref [simp]: "gdata (variant_unref v s) = gdata s"
  by (cases v) (simp_all add: variant_unref_def g_variant_unref_def)

lemma fst_at_v: "fst (at_v k s) = (case variants s k of Some v \<Rightarrow> v | None \<Rightarrow> None)"
  by (simp add: at_v_def split: option.splits)

lemma variants_at_v [simp]: "variants (snd (at_v k s)) = variants s"
  by (simp add: at_v_def split: option.splits)

lemma variants_insert_v:
  "variants (insert_v k v s) = (case variants s k of Some u \<Rightarrow> variants s | None \<Rightarrow> (variants s)(k \<mapsto> v))"
  by (simp add: insert_v_def split: option.splits)

lemma variants_erase_v [simp]: "variants (erase_v k s) = (variants s)(k := None)"
  by (auto simp: erase_v_def split: option.splits)


text \<open>
  C5 (as the code has it). \<^verbatim>\<open>insert\<close> stores the value only when the handle has no
  entry, and the entry then owns the reference that came with the value (no count
  changes). An entry that exists is kept: the map is unchanged, the reference that came
  with the value is released (the count of its GVariant goes down by one), and a lookup
  after the insert returns the value stored before.
\<close>

theorem insert_keeps_existing_entry:
  "fst (at_v h (insert_v h v s)) = (case variants s h of None \<Rightarrow> v | Some u \<Rightarrow> u)
   \<and> (variants s h = None \<longrightarrow>
         variants (insert_v h v s) = (variants s)(h \<mapsto> v)
         \<and> ref_count (insert_v h v s) = ref_count s)
   \<and> (variants s h \<noteq> None \<longrightarrow>
         variants (insert_v h v s) = variants s
         \<and> ref_count (insert_v h v s)
             = (case v of None \<Rightarrow> ref_count s
                | Some g \<Rightarrow> (ref_count s)(g := ref_count s g - 1)))
   \<and> gdata (insert_v h v s) = gdata s"
  by (auto simp: fst_at_v variants_insert_v insert_v_def variant_unref_def g_variant_unref_def
      split: option.splits)

definition store0 :: vstate where
  "store0 = \<lparr>variants = Map.empty(1 \<mapsto> Some 10), ref_count = (\<lambda>_. 0)(10 := 1, 20 := 1),
             gdata = (\<lambda>_. GInt32 0)(10 := GInt32 7, 20 := GString ''x'')\<rparr>"

theorem insert_keeps_existing_entry_witness:
  "fst (at_v 1 (insert_v 1 (Some 20) store0)) = Some 10
   \<and> variants (insert_v 1 (Some 20) store0) = variants store0
   \<and> ref_count store0 20 = 1
   \<and> ref_count (insert_v 1 (Some 20) store0) 20 = 0
   \<and> fst (at_v 2 (insert_v 2 (Some 20) store0)) = Some 20
   \<and> ref_count (insert_v 2 (Some 20) store0) 20 = 1"
proof -
  have a: "variants store0 1 = Some (Some 10)" and b: "variants store0 2 = None"
    and r: "ref_count store0 20 = 1"
    by (simp_all add: store0_def)
  show ?thesis
    using insert_keeps_existing_entry [of 1 "Some 20" store0]
      insert_keeps_existing_entry [of 2 "Some 20" store0] a b r
    by simp
qed

theorem insert_replaces_counterexample:
  "variants store0 1 = Some (Some 10)
   \<and> fst (at_v 1 (insert_v 1 (Some 20) store0)) \<noteq> Some 20"
  by (simp add: at_v_def insert_v_def store0_def variant_unref_def g_variant_unref_def)


subsection \<open>Copies of a handle\<close>

lemma variants_GDBusVariant_copy:
  "variants (GDBusVariant_copy this v s) =
     (case variants s this of
        Some u \<Rightarrow> variants s
      | None \<Rightarrow> (variants s)(this \<mapsto> fst (at_v v s)))"
  by (simp add: GDBusVariant_copy_def split_def Let_def variants_insert_v split: option.splits)

lemma gdata_GDBusVariant_copy [simp]: "gdata (GDBusVariant_copy this v s) = gdata s"
  by (simp add: GDBusVariant_copy_def split_def Let_def insert_v_def at_v_def split: option.splits)

lemma gdata_GDBusVariant_dtor [simp]: "gdata (GDBusVariant_dtor this s) = gdata s"
  by (simp add: GDBusVariant_dtor_def erase_v_def split: option.splits)

lemma variants_GDBusVariant_dtor [simp]:
  "variants (GDBusVariant_dtor this s) = (variants s)(this := None)"
  by (simp add: GDBusVariant_dtor_def)

lemma ref_count_copy_fresh:
  "variants s this = None \<Longrightarrow> variants s v = Some (Some g) \<Longrightarrow>
   ref_count (GDBusVariant_copy this v s) = (ref_count s)(g := ref_count s g + 1)"
  by (simp add: GDBusVariant_copy_def at_v_def insert_v_def variant_copy_def g_variant_ref_def)

lemma ref_count_dtor:
  "variants s this = Some (Some g) \<Longrightarrow>
   ref_count (GDBusVariant_dtor this s) = (ref_count s)(g := ref_count s g - 1)"
  by (simp add: GDBusVariant_dtor_def erase_v_def variant_unref_def g_variant_unref_def)

text \<open>
  The scenario of C8: two handles \<open>b\<close> and \<open>c\<close> are copy-constructed from the
  original \<open>a\<close>, which is then destroyed; later both copies are destroyed.
\<close>

definition two_copies_then_drop_original :: "key_t \<Rightarrow> key_t \<Rightarrow> key_t \<Rightarrow> vstate \<Rightarrow> vstate" where
  "two_copies_then_drop_original a b c s =
     GDBusVariant_dtor a (GDBusVariant_copy c a (GDBusVariant_copy b a s))"

definition drop_both_copies :: "key_t \<Rightarrow> key_t \<Rightarrow> vstate \<Rightarrow> vstate" where
  "drop_both_copies b c s = GDBusVariant_dtor c (GDBusVariant_dtor b s)"

text \<open>
  C8. Let the handle \<open>a\<close> hold the stored value \<open>g\<close>, and let \<open>b\<close> and \<open>c\<close> be two
  new handles (distinct objects without an entry of their own) copy-constructed from
  \<open>a\<close>. After \<open>a\<close> is destroyed, both copies resolve to the same GVariant \<open>g\<close>, whose
  contents are unchanged and whose reference count has gone up by one (two owners
  instead of one): the value is shared, not duplicated. After both copies are destroyed
  too, a lookup through \<open>b\<close> or \<open>c\<close> gives the empty \<^verbatim>\<open>variant_t\<close>, neither handle has
  an entry, and the references they held are released.
\<close>

theorem copies_share_value_until_destroyed:
  assumes "variants s a = Some (Some g)"
    and "variants s b = None" and "variants s c = None"
    and "b \<noteq> c"
  shows "fst (at_v b (two_copies_then_drop_original a b c s)) = Some g
       \<and> fst (at_v c (two_copies_then_drop_original a b c s)) = Some g
       \<and> gdata (two_copies_then_drop_original a b c s) g = gdata s g
       \<and> ref_count (two_copies_then_drop_original a b c s) g = ref_count s g + 1
       \<and> fst (at_v b (drop_both_copies b c (two_copies_then_drop_original a b c s))) = None
       \<and> fst (at_v c (drop_both_copies b c (two_copies_then_drop_original a b c s))) = None
       \<and> variants (drop_both_copies b c (two_copies_then_drop_original a b c s)) b = None
       \<and> variants (drop_both_copies b c (two_copies_then_drop_original a b c s)) c = None
       \<and> ref_count (drop_both_copies b c (two_copies_then_drop_original a b c s)) g
           = ref_count s g - 1"
proof -
  from assms have ab: "a \<noteq> b" and ac: "a \<noteq> c"
    by auto
  define s1 where "s1 = GDBusVariant_copy b a s"
  define s2 where "s2 = GDBusVariant_copy c a s1"
  define s3 where "s3 = GDBusVariant_dtor a s2"
  define s4 where "s4 = GDBusVariant_dtor b s3"
  define s5 where "s5 = GDBusVariant_dtor c s4"
  have v1: "variants s1 = (variants s)(b \<mapsto> Some g)"
    using assms by (simp add: s1_def variants_GDBusVariant_copy fst_at_v)
  have r1: "ref_count s1 = (ref_count s)(g := ref_count s g + 1)"
    using assms by (simp add: s1_def ref_count_copy_fresh)
  have v2: "variants s2 = (variants s)(b \<mapsto> Some g, c \<mapsto> Some g)"
    using assms ab ac by (simp add: s2_def variants_GDBusVariant_copy fst_at_v v1)
  have r2: "ref_count s2 = (ref_count s)(g := ref_count s g + 2)"
    using assms ab ac by (simp add: s2_def ref_count_copy_fresh v1 r1)
  have v3: "variants s3 = (variants s)(b \<mapsto> Some g, c \<mapsto> Some g, a := None)"
    by (simp add: s3_def v2)
  have r3: "ref_count s3 = (ref_count s)(g := ref_count s g + 1)"
    using assms ab ac by (simp add: s3_def ref_count_dtor v2 r2)
  have v4: "variants s4 = (variants s)(b \<mapsto> Some g, c \<mapsto> Some g, a := None, b := None)"
    by (simp add: s4_def v3)
  have r4: "ref_count s4 = (ref_count s)(g := ref_count s g)"
    using assms ab ac by (simp add: s4_def ref_count_dtor v3 r3)
  have v5: "variants s5 = (variants s)(b \<mapsto> Some g, c \<mapsto> Some g, a := None, b := None, c := None)"
    by (simp add: s5_def v4)
  have r5: "ref_count s5 = (ref_count s)(g := ref_count s g - 1)"
    using assms ab ac by (simp add: s5_def ref_count_dtor v4 r4)
  have g3: "gdata s3 = gdata s"
    by (simp add: s3_def s2_def s1_def)
  have e3: "two_copies_then_drop_original a b c s = s3"
    by (simp add: two_copies_then_drop_original_def s3_def s2_def s1_def)
  have e5: "drop_both_copies b c s3 = s5"
    by (simp add: drop_both_copies_def s5_def s4_def)
  show ?thesis
    unfolding e3 e5 using assms ab ac
    by (simp add: fst_at_v v3 v5 r3 r5 g3)
qed

theorem copies_share_value_until_destroyed_witness:
  "fst (at_v 2 (two_copies_then_drop_original 1 2 3 store0)) = Some 10
   \<and> fst (at_v 3 (two_copies_then_drop_original 1 2 3 store0)) = Some 10
   \<and> ref_count (two_copies_then_drop_original 1 2 3 store0) 10 = 2
   \<and> fst (at_v 2 (drop_both_copies 2 3 (two_copies_then_drop_original 1 2 3 store0))) = None
   \<and> fst (at_v 3 (drop_both_copies 2 3 (two_copies_then_drop_original 1 2 3 store0))) = None
   \<and> ref_count (drop_both_copies 2 3 (two_copies_then_drop_original 1 2 3 store0)) 10 = 0"
proof -
  have a: "variants store0 1 = Some (Some 10)"
    and b: "variants store0 2 = None" and c: "variants store0 3 = None"
    and r: "ref_count store0 10 = 1"
    by (simp_all add: store0_def)
  have d: "(2::nat) \<noteq> 3"
    by simp
  show ?thesis
    using copies_share_value_until_destroyed [OF a b c d] r by simp
qed


subsection \<open>Self-assignment of a handle\<close>

text \<open>
  C10. When a \<^verbatim>\<open>GDBusVariant\<close> that holds a stored value is assigned to itself, the
  assignment operator erases its entry, looks the (now missing) source up and stores the
  empty result. Afterwards every getter sets \<^verbatim>\<open>result\<close> to false and returns the default
  of its type, \<^verbatim>\<open>print\<close> returns the empty string, and none of them changes the state.
  The reference the handle owned has been released.
\<close>

theorem self_assignment_erases_value:
  assumes "variants s v = Some (Some g)"
  shows "variants (GDBusVariant_assign v v s) v = Some None
       \<and> ref_count (GDBusVariant_assign v v s) g = ref_count s g - 1
       \<and> getInt v (GDBusVariant_assign v v s) = (0, False, GDBusVariant_assign v v s)
       \<and> getBool v (GDBusVariant_assign v v s) = (False, False, GDBusVariant_assign v v s)
       \<and> getDouble v (GDBusVariant_assign v v s) = (0, False, GDBusVariant_assign v v s)
       \<and> getString v (GDBusVariant_assign v v s) = ([], False, GDBusVariant_assign v v s)
       \<and> print X v (GDBusVariant_assign v v s) = ([], GDBusVariant_assign v v s)"
proof -
  define s' where "s' = GDBusVariant_assign v v s"
  have v': "variants s' v = Some None"
    using assms
    by (simp add: s'_def GDBusVariant_assign_def at_v_def insert_v_def erase_v_def
        variant_unref_def g_variant_unref_def)
  have r': "ref_count s' g = ref_count s g - 1"
    using assms
    by (simp add: s'_def GDBusVariant_assign_def at_v_def insert_v_def erase_v_def
        variant_unref_def g_variant_unref_def)
  have at': "at_v v s' = (None, s')"
    using v' by (simp add: at_v_def)
  show ?thesis
    unfolding s'_def [symmetric] using v' r' at'
    by (simp add: getInt_def getBool_def getDouble_def getString_def print_def)
qed

definition ext0 :: externals where
  "ext0 = \<lparr>g_utf8_validate = (\<lambda>_. True),
           g_variant_is_object_path = (\<lambda>p. case p of [] \<Rightarrow> False | c # _ \<Rightarrow> c = CHR 0x2F),
           g_dbus_is_name = (\<lambda>n. n \<noteq> []),
           g_dbus_is_interface_name = (\<lambda>n. n \<noteq> []),
           g_dbus_is_member_name = (\<lambda>n. n \<noteq> []),
           g_variant_print = (\<lambda>v. case v of GInt32 i \<Rightarrow> ''int32'' | GString str \<Rightarrow> str | _ \<Rightarrow> ''?''),
           int_to_string = (\<lambda>i. if i = 0 then ''0'' else ''n''),
           double_to_string = (\<lambda>d. ''d'')\<rparr>"

theorem self_assignment_erases_value_witness:
  "fst (getInt 1 store0) = 7 \<and> fst (snd (getInt 1 store0))
   \<and> getInt 1 (GDBusVariant_assign 1 1 store0) = (0, False, GDBusVariant_assign 1 1 store0)
   \<and> getString 1 (GDBusVariant_assign 1 1 store0) = ([], False, GDBusVariant_assign 1 1 store0)
   \<and> fst (print ext0 1 store0) = ''int32''
   \<and> print ext0 1 (GDBusVariant_assign 1 1 store0) = ([], GDBusVariant_assign 1 1 store0)
   \<and> ref_count (GDBusVariant_assign 1 1 store0) 10 = 0"
proof -
  have a: "variants store0 1 = Some (Some 10)"
    by (simp add: store0_def)
  have b: "fst (getInt 1 store0) = 7 \<and> fst (snd (getInt 1 store0))"
    by (simp add: getInt_def at_v_def store0_def variant_copy_def g_variant_ref_def)
  have c: "fst (print ext0 1 store0) = ''int32''"
    by (simp add: print_def at_v_def store0_def variant_copy_def g_variant_ref_def ext0_def)
  have r: "ref_count store0 10 = 1"
    by (simp add: store0_def)
  show ?thesis
    using self_assignment_erases_value [OF a, of ext0] b c r by simp
qed


section \<open>Tuples (\<^verbatim>\<open>tuple_t\<close>, \<^verbatim>\<open>GDBusTuple\<close>)\<close>

text \<open>
  \<^verbatim>\<open>getter_t\<close> is a pointer to one of the four functions \<^verbatim>\<open>strInt\<close>, \<^verbatim>\<open>strDouble\<close>,
  \<^verbatim>\<open>strBool\<close> and \<^verbatim>\<open>strString\<close>. \<^verbatim>\<open>std::to_string\<close> of a \<^verbatim>\<open>bool\<close> prints the
  promoted integer.
\<close>

datatype getter_t = strInt | strDouble | strBool | strString

fun call_getter :: "externals \<Rightarrow> getter_t \<Rightarrow> key_t \<Rightarrow> vstate \<Rightarrow> string \<times> bool \<times> vstate" where
  "call_getter X strInt v s = (let (i, res, s') = getInt v s in (int_to_string X (sint i), res, s'))"
| "call_getter X strDouble v s = (let (d, res, s') = getDouble v s in (double_to_string X d, res, s'))"
| "call_getter X strBool v s =
     (let (b, res, s') = getBool v s in (int_to_string X (if b then 1 else 0), res, s'))"
| "call_getter X strString v s = getString v s"

type_synonym handle_t = nat

record tuple_t =
  vars :: "key_t list"
  getters :: "getter_t list"
  handles :: "handle_t list"

definition empty_tuple :: tuple_t where
  "empty_tuple = \<lparr>vars = [], getters = [], handles = []\<rparr>"

text \<open>
  The loop of \<^verbatim>\<open>tuple_t::toString\<close>, which runs over \<^verbatim>\<open>getters[i]\<close> and \<^verbatim>\<open>vars[i]\<close>
  for \<open>i\<close> from 0 while both vectors have the same size.
\<close>

fun toString_loop ::
  "externals \<Rightarrow> (getter_t \<times> key_t) list \<Rightarrow> string \<Rightarrow> vstate \<Rightarrow> string \<times> vstate" where
  "toString_loop X [] str s = (''('' @ str @ '')'', s)"
| "toString_loop X ((getter, var) # rest) str s =
     (let (out, res, s') = call_getter X getter var s;
          str1 = str @ (if str = [] then [] else '' '');
          str2 = str1 @ ''<'' @ out @ ''>''
      in if \<not> res then ([], s') else toString_loop X rest str2 s')"

definition toString :: "externals \<Rightarrow> tuple_t \<Rightarrow> vstate \<Rightarrow> string \<times> vstate" where
  "toString X t s =
     (if length (vars t) \<noteq> length (getters t) then ([], s)
      else toString_loop X (zip (getters t) (vars t)) [] s)"

text \<open>
  \<^verbatim>\<open>vars = variants\<close> is the copy assignment of \<^verbatim>\<open>std::vector<GDBusVariant>\<close>. Afterwards
  the vector holds one element for each element of the source, each made a copy of it by
  the copy constructor or by the copy assignment of \<^verbatim>\<open>GDBusVariant\<close>, and the elements
  it held before are gone. The addresses \<open>dst\<close> of the new elements are the allocator's
  choice and are a parameter. Copy assignment to an element that stays in place is
  \<^verbatim>\<open>erase\<close>, as in the destructor, followed by what the copy constructor does.
\<close>

definition vector_assign :: "key_t list \<Rightarrow> key_t list \<Rightarrow> key_t list \<Rightarrow> vstate \<Rightarrow> vstate" where
  "vector_assign old dst src s =
     fold (\<lambda>(d, v). GDBusVariant_copy d v) (zip dst src) (fold GDBusVariant_dtor old s)"

definition tuple_assign ::
  "externals \<Rightarrow> tuple_t \<Rightarrow> key_t list \<Rightarrow> key_t list \<Rightarrow> vstate \<Rightarrow> bool \<times> tuple_t \<times> vstate" where
  "tuple_assign X t variants_arg dst s =
     (let s1 = vector_assign (vars t) dst variants_arg s;
          t' = t\<lparr>vars := dst\<rparr>;
          (str, s2) = toString X t' s1
      in (str \<noteq> [], t', s2))"

text \<open>
  The global tables of the tuples: \<^verbatim>\<open>tuples\<close>, \<^verbatim>\<open>fields\<close> (here \<open>fields_map\<close>) and the thread-local
  \<^verbatim>\<open>curTuple\<close>. Addresses are numbers; 0 is the null pointer.
\<close>

record field_ptr =
  pt :: nat
  getter :: getter_t

record tstate =
  tuples :: "nat \<rightharpoonup> tuple_t"
  fields_map :: "handle_t \<rightharpoonup> field_ptr"
  curTuple :: nat
  store :: vstate

text \<open>\<^verbatim>\<open>tuples[p]\<close>: \<^verbatim>\<open>std::map::operator[]\<close> creates an empty \<^verbatim>\<open>tuple_t\<close> when absent.\<close>

definition tuples_at :: "tstate \<Rightarrow> nat \<Rightarrow> tuple_t" where
  "tuples_at ts p = (case tuples ts p of Some t \<Rightarrow> t | None \<Rightarrow> empty_tuple)"

definition newField :: "handle_t \<Rightarrow> getter_t \<Rightarrow> tuple_t \<Rightarrow> tuple_t" where
  "newField fh g t = t\<lparr>handles := handles t @ [fh], getters := getters t @ [g]\<rparr>"

definition addField :: "handle_t \<Rightarrow> nat \<Rightarrow> getter_t \<Rightarrow> tstate \<Rightarrow> tstate" where
  "addField fh ptuple g ts =
     ts\<lparr>fields_map := (fields_map ts)(fh \<mapsto> \<lparr>pt = ptuple, getter = g\<rparr>),
        tuples := (tuples ts)(ptuple \<mapsto> newField fh g (tuples_at ts ptuple))\<rparr>"

text \<open>
  \<^verbatim>\<open>tuples.erase(p)\<close> destroys the \<^verbatim>\<open>tuple_t\<close> of \<open>p\<close>, if there is one, and with
  it the \<^verbatim>\<open>GDBusVariant\<close> elements of its \<^verbatim>\<open>vars\<close>.
\<close>

definition tuples_erase :: "nat \<Rightarrow> tstate \<Rightarrow> tstate" where
  "tuples_erase p ts =
     (case tuples ts p of
        None \<Rightarrow> ts
      | Some t \<Rightarrow> ts\<lparr>tuples := (tuples ts)(p := None),
                      store := fold GDBusVariant_dtor (vars t) (store ts)\<rparr>)"

definition GDBusTuple_ctor :: "nat \<Rightarrow> tstate \<Rightarrow> tstate" where
  "GDBusTuple_ctor this ts = tuples_erase this (ts\<lparr>curTuple := this\<rparr>)"

definition pint_ctor :: "handle_t \<Rightarrow> tstate \<Rightarrow> tstate" where
  "pint_ctor this ts = addField this (curTuple ts) strInt ts"

definition pdouble_ctor :: "handle_t \<Rightarrow> tstate \<Rightarrow> tstate" where
  "pdouble_ctor this ts = addField this (curTuple ts) strDouble ts"

definition pbool_ctor :: "handle_t \<Rightarrow> tstate \<Rightarrow> tstate" where
  "pbool_ctor this ts = addField this (curTuple ts) strBool ts"

definition pstring_ctor :: "handle_t \<Rightarrow> tstate \<Rightarrow> tstate" where
  "pstring_ctor this ts = addField this (curTuple ts) strString ts"

definition GDBusTuple_assign ::
  "externals \<Rightarrow> nat \<Rightarrow> key_t list \<Rightarrow> key_t list \<Rightarrow> tstate \<Rightarrow> bool \<times> tstate" where
  "GDBusTuple_assign X this variants_arg dst ts =
     (let (r, t', s') = tuple_assign X (tuples_at ts this) variants_arg dst (store ts)
      in (r, ts\<lparr>tuples := (tuples ts)(this \<mapsto> t'), store := s'\<rparr>))"

text \<open>Whether a getter reports success on a handle: its \<^verbatim>\<open>result\<close> flag.\<close>

fun getter_result :: "getter_t \<Rightarrow> key_t \<Rightarrow> vstate \<Rightarrow> bool" where
  "getter_result strInt v s = fst (snd (getInt v s))"
| "getter_result strDouble v s = fst (snd (getDouble v s))"
| "getter_result strBool v s = fst (snd (getBool v s))"
| "getter_result strString v s = fst (snd (getString v s))"

lemma call_getter_result: "fst (snd (call_getter X g v s)) = getter_result g v s"
  by (cases g) (simp_all add: split_def Let_def)

lemma getInt_state [simp]: "snd (snd (getInt v s)) = s"
  by (simp add: getInt_def split_def Let_def)

lemma getBool_state [simp]: "snd (snd (getBool v s)) = s"
  by (simp add: getBool_def split_def Let_def)

lemma getDouble_state [simp]: "snd (snd (getDouble v s)) = s"
  by (simp add: getDouble_def split_def Let_def)

lemma getString_state [simp]: "snd (snd (getString v s)) = s"
  by (simp add: getString_def split_def Let_def)

lemma call_getter_state: "snd (snd (call_getter X g v s)) = s"
  by (cases g) (simp_all add: split_def Let_def)

lemma toString_loop_state: "snd (toString_loop X ps str s) = s"
proof (induction ps arbitrary: str)
  case Nil
  show ?case by simp
next
  case (Cons a ps)
  obtain g v where a: "a = (g, v)"
    by (cases a)
  obtain out res s' where c: "call_getter X g v s = (out, res, s')"
    by (cases "call_getter X g v s")
  have s': "s' = s"
    using call_getter_state [of X g v s] c by simp
  show ?case
    using Cons.IH by (simp add: a c s' Let_def)
qed

lemma toString_loop_nonempty:
  "fst (toString_loop X ps str s) \<noteq> [] \<longleftrightarrow> (\<forall>(g, v) \<in> set ps. getter_result g v s)"
proof (induction ps arbitrary: str)
  case Nil
  show ?case by simp
next
  case (Cons a ps)
  obtain g v where a: "a = (g, v)"
    by (cases a)
  obtain out res s' where c: "call_getter X g v s = (out, res, s')"
    by (cases "call_getter X g v s")
  have s': "s' = s"
    using call_getter_state [of X g v s] c by simp
  have res: "res = getter_result g v s"
    using call_getter_result [of X g v s] c by simp
  show ?case
    using Cons.IH by (simp add: a c s' res Let_def)
qed

text \<open>What a handle resolves to: the contents of the GVariant its entry points to.\<close>

definition resolve :: "vstate \<Rightarrow> key_t \<Rightarrow> gvariant option" where
  "resolve s k = (case variants s k of Some (Some g) \<Rightarrow> Some (gdata s g) | _ \<Rightarrow> None)"

fun extracts :: "getter_t \<Rightarrow> gvariant option \<Rightarrow> bool" where
  "extracts strInt (Some (GInt32 i)) = True"
| "extracts strDouble (Some (GDouble d)) = True"
| "extracts strBool (Some (GBoolean b)) = True"
| "extracts strString (Some (GString str)) = True"
| "extracts _ _ = False"

lemma getter_result_resolve: "getter_result g v s = extracts g (resolve s v)"
  by (cases g)
     (auto simp: getInt_def getBool_def getDouble_def getString_def at_v_def resolve_def
           split: option.splits gvariant.splits)

lemma variants_fold_dtor:
  "variants (fold GDBusVariant_dtor old s) k = (if k \<in> set old then None else variants s k)"
  by (induction old arbitrary: s) auto

lemma gdata_fold_dtor [simp]: "gdata (fold GDBusVariant_dtor old s) = gdata s"
  by (induction old arbitrary: s) auto

lemma gdata_fold_copy [simp]:
  "gdata (fold (\<lambda>(d, v). GDBusVariant_copy d v) ps s) = gdata s"
  by (induction ps arbitrary: s) auto

lemma variants_fold_copy_other:
  "k \<notin> fst ` set ps \<Longrightarrow>
   variants (fold (\<lambda>(d, v). GDBusVariant_copy d v) ps s) k = variants s k"
  by (induction ps arbitrary: s) (auto simp: variants_GDBusVariant_copy split: option.splits)

lemma variants_fold_copy_nth:
  assumes "length dst = length src" and "distinct dst"
    and "set dst \<inter> set src = {}" and "\<forall>d \<in> set dst. variants s d = None"
    and "i < length src"
  shows "variants (fold (\<lambda>(d, v). GDBusVariant_copy d v) (zip dst src) s) (dst ! i)
         = Some (fst (at_v (src ! i) s))"
  using assms
proof (induction dst src arbitrary: s i rule: list_induct2)
  case Nil
  then show ?case by simp
next
  case (Cons d dst v src)
  let ?s' = "GDBusVariant_copy d v s"
  have vs': "variants ?s' = (variants s)(d \<mapsto> fst (at_v v s))"
    using Cons.prems by (simp add: variants_GDBusVariant_copy)
  show ?case
  proof (cases i)
    case 0
    have "d \<notin> fst ` set (zip dst src)"
      using Cons.prems by (auto dest: set_zip_leftD)
    then show ?thesis
      using 0 vs' by (simp add: variants_fold_copy_other)
  next
    case (Suc j)
    have pre: "distinct dst" "set dst \<inter> set src = {}" "\<forall>x \<in> set dst. variants ?s' x = None"
      "j < length src"
      using Cons.prems Suc by (auto simp: vs')
    have "src ! j \<noteq> d"
      using Cons.prems pre(4) by auto
    then have "fst (at_v (src ! j) ?s') = fst (at_v (src ! j) s)"
      by (simp add: fst_at_v vs')
    then show ?thesis
      using Cons.IH [OF pre] Suc by simp
  qed
qed


lemma resolve_vector_assign:
  assumes "length dst = length src" and "distinct dst"
    and "set dst \<inter> set src = {}" and "set old \<inter> set src = {}"
    and "\<forall>d \<in> set dst. variants s d = None \<or> d \<in> set old"
    and "i < length src"
  shows "resolve (vector_assign old dst src s) (dst ! i) = resolve s (src ! i)"
proof -
  let ?s0 = "fold GDBusVariant_dtor old s"
  have fresh: "\<forall>d \<in> set dst. variants ?s0 d = None"
    using assms(5) by (auto simp: variants_fold_dtor)
  have "src ! i \<notin> set old"
    using assms(4,6) by auto
  then have src: "variants ?s0 (src ! i) = variants s (src ! i)"
    by (simp add: variants_fold_dtor)
  have "variants (vector_assign old dst src s) (dst ! i) = Some (fst (at_v (src ! i) ?s0))"
    unfolding vector_assign_def
    by (rule variants_fold_copy_nth [OF assms(1,2,3) fresh assms(6)])
  then show ?thesis
    by (simp add: resolve_def vector_assign_def fst_at_v src split: option.splits)
qed

lemma ball_zip_conv_nth:
  assumes "length xs = length ys"
  shows "(\<forall>(x, y) \<in> set (zip xs ys). P x y) \<longleftrightarrow> (\<forall>i < length xs. P (xs ! i) (ys ! i))"
proof -
  have "list_all2 P xs ys \<longleftrightarrow> (\<forall>(x, y) \<in> set (zip xs ys). P x y)"
    using assms by (simp add: list_all2_iff)
  moreover have "list_all2 P xs ys \<longleftrightarrow> (\<forall>i < length xs. P (xs ! i) (ys ! i))"
    using assms by (simp add: list_all2_conv_all_nth)
  ultimately show ?thesis
    by simp
qed

lemma fst_tuple_assign:
  "fst (tuple_assign X t vs dst s) \<longleftrightarrow>
     length dst = length (getters t) \<and>
     (\<forall>(g, v) \<in> set (zip (getters t) dst).
        getter_result g v (vector_assign (vars t) dst vs s))"
  by (simp add: tuple_assign_def toString_def Let_def split_def toString_loop_nonempty)

text \<open>
  C9. \<^verbatim>\<open>GDBusTuple::assign(variants)\<close> returns true exactly when the number of supplied
  variants equals the number of declared fields and every field's getter, taken in
  declaration order, extracts its scalar type (\<^verbatim>\<open>strInt\<close> an int32, \<^verbatim>\<open>strDouble\<close> a
  double, \<^verbatim>\<open>strBool\<close> a boolean, \<^verbatim>\<open>strString\<close> a string) from the variant at the same
  position. In particular it returns false when a field fails to extract or when the
  numbers differ. The assumptions say where the vector puts the copies: one element per
  supplied variant, at distinct addresses that are unused or belonged to the old
  elements, and the supplied variants are not elements of the tuple's own vector.
\<close>

theorem assign_true_iff_all_fields_extract:
  assumes "length dst = length vs" and "distinct dst"
    and "set dst \<inter> set vs = {}"
    and "set (vars (tuples_at ts this)) \<inter> set vs = {}"
    and "\<forall>d \<in> set dst. variants (store ts) d = None \<or> d \<in> set (vars (tuples_at ts this))"
  shows "fst (GDBusTuple_assign X this vs dst ts) \<longleftrightarrow>
           length vs = length (getters (tuples_at ts this)) \<and>
           (\<forall>i < length vs.
              extracts (getters (tuples_at ts this) ! i) (resolve (store ts) (vs ! i)))"
proof -
  let ?t = "tuples_at ts this"
  let ?s1 = "vector_assign (vars ?t) dst vs (store ts)"
  have r: "resolve ?s1 (dst ! i) = resolve (store ts) (vs ! i)" if "i < length vs" for i
    by (rule resolve_vector_assign [OF assms(1,2,3,4,5) that])
  have "fst (GDBusTuple_assign X this vs dst ts) = fst (tuple_assign X ?t vs dst (store ts))"
    by (simp add: GDBusTuple_assign_def split_def Let_def)
  also have "\<dots> \<longleftrightarrow> length dst = length (getters ?t) \<and>
      (\<forall>(g, v) \<in> set (zip (getters ?t) dst). getter_result g v ?s1)"
    by (rule fst_tuple_assign)
  also have "\<dots> \<longleftrightarrow> length vs = length (getters ?t) \<and>
      (\<forall>i < length vs. getter_result (getters ?t ! i) (dst ! i) ?s1)"
  proof (cases "length vs = length (getters ?t)")
    case True
    then have "length (getters ?t) = length dst"
      using assms(1) by simp
    from ball_zip_conv_nth [OF this] True assms(1) show ?thesis
      by simp
  next
    case False
    then show ?thesis
      using assms(1) by simp
  qed
  also have "\<dots> \<longleftrightarrow> length vs = length (getters ?t) \<and>
      (\<forall>i < length vs. extracts (getters ?t ! i) (resolve (store ts) (vs ! i)))"
    using r by (auto simp: getter_result_resolve)
  finally show ?thesis .
qed

text \<open>
  The tuple of the header's example, \<^verbatim>\<open>struct SITuple: GDBusTuple { pstring name; pint value; }\<close>,
  constructed at address 100 with its fields at 101 and 102, over a store where handle 1
  holds an int32 and handle 2 a string.
\<close>

definition store1 :: vstate where
  "store1 = \<lparr>variants = Map.empty(1 \<mapsto> Some 10, 2 \<mapsto> Some 20),
             ref_count = (\<lambda>_. 0)(10 := 1, 20 := 1),
             gdata = (\<lambda>_. GInt32 0)(10 := GInt32 7, 20 := GString ''x'')\<rparr>"

definition SITuple :: tstate where
  "SITuple = pint_ctor 102 (pstring_ctor 101 (GDBusTuple_ctor 100
     \<lparr>tuples = Map.empty, fields_map = Map.empty, curTuple = 0, store = store1\<rparr>))"

lemma SITuple_at: "tuples_at SITuple 100
    = \<lparr>vars = [], getters = [strString, strInt], handles = [101, 102]\<rparr>"
  by (simp add: SITuple_def pint_ctor_def pstring_ctor_def GDBusTuple_ctor_def tuples_erase_def
      addField_def newField_def tuples_at_def empty_tuple_def)

lemma SITuple_store: "store SITuple = store1"
  by (simp add: SITuple_def pint_ctor_def pstring_ctor_def GDBusTuple_ctor_def tuples_erase_def
      addField_def)

theorem assign_true_iff_all_fields_extract_witness:
  "fst (GDBusTuple_assign ext0 100 [2, 1] [50, 51] SITuple)
   \<and> \<not> fst (GDBusTuple_assign ext0 100 [1, 2] [50, 51] SITuple)
   \<and> \<not> fst (GDBusTuple_assign ext0 100 [2] [50] SITuple)"
proof -
  have a: "fst (GDBusTuple_assign ext0 100 [2, 1] [50, 51] SITuple)"
    using assign_true_iff_all_fields_extract [of "[50, 51]" "[2, 1]" SITuple 100 ext0]
    by (simp add: SITuple_at SITuple_store store1_def resolve_def All_less_Suc)
  have b: "\<not> fst (GDBusTuple_assign ext0 100 [1, 2] [50, 51] SITuple)"
    using assign_true_iff_all_fields_extract [of "[50, 51]" "[1, 2]" SITuple 100 ext0]
    by (simp add: SITuple_at SITuple_store store1_def resolve_def All_less_Suc)
  have c: "\<not> fst (GDBusTuple_assign ext0 100 [2] [50] SITuple)"
    using assign_true_iff_all_fields_extract [of "[50]" "[2]" SITuple 100 ext0]
    by (simp add: SITuple_at SITuple_store store1_def resolve_def)
  show ?thesis
    using a b c by simp
qed


section \<open>The converters (\<^verbatim>\<open>gdbus_client::converters\<close>)\<close>

text \<open>
  \<^verbatim>\<open>std::string::c_str\<close> read as a C string: the characters before the first NUL.
\<close>

definition c_str :: "string \<Rightarrow> string" where
  "c_str s = takeWhile (\<lambda>c. c \<noteq> CHR 0x00) s"

text \<open>
  GLib's constructors check their argument and return \<^verbatim>\<open>NULL\<close> when the check fails
  (\<^verbatim>\<open>g_return_val_if_fail\<close>).
\<close>

definition g_variant_new_string :: "externals \<Rightarrow> string \<Rightarrow> gvariant option" where
  "g_variant_new_string X cs = (if g_utf8_validate X cs then Some (GString cs) else None)"

definition g_variant_new_object_path :: "externals \<Rightarrow> string \<Rightarrow> gvariant option" where
  "g_variant_new_object_path X cs =
     (if g_variant_is_object_path X cs then Some (GObjectPath cs) else None)"

definition g_variant_new_variant :: "gvariant option \<Rightarrow> gvariant option" where
  "g_variant_new_variant v = (case v of None \<Rightarrow> None | Some b \<Rightarrow> Some (GVariantBox b))"

text \<open>
  Conversions of C++: \<^verbatim>\<open>static_cast<bool>\<close> of a double is true unless the double is a
  zero (of either sign); a bool converts to the double 0.0 or 1.0.
\<close>

definition bool_of_double :: "double \<Rightarrow> bool" where
  "bool_of_double d = (d AND 0x7FFFFFFFFFFFFFFF \<noteq> 0)"

definition double_of_bool :: "bool \<Rightarrow> double" where
  "double_of_bool b = (if b then 0x3FF0000000000000 else 0)"

text \<open>
  Each \<^verbatim>\<open>marshal\<close> returns a \<^verbatim>\<open>GVariant*\<close> (\<open>None\<close> is \<^verbatim>\<open>nullptr\<close>). Each \<^verbatim>\<open>unmarshal\<close>
  takes the variant and the current value of the referenced native variable, and gives
  the returned flag and the variable's new value.
\<close>

definition marshal_S :: "externals \<Rightarrow> string \<Rightarrow> gvariant option" where
  "marshal_S X s = g_variant_new_string X (c_str s)"

definition unmarshal_S :: "gvariant \<Rightarrow> string \<Rightarrow> bool \<times> string" where
  "unmarshal_S gv s = (case gv of GString str \<Rightarrow> (True, str) | _ \<Rightarrow> (False, s))"

definition marshal_I :: "int32_t \<Rightarrow> gvariant option" where
  "marshal_I i = Some (GInt32 i)"

definition unmarshal_I :: "gvariant \<Rightarrow> int32_t \<Rightarrow> bool \<times> int32_t" where
  "unmarshal_I gv i = (case gv of GInt32 x \<Rightarrow> (True, x) | _ \<Rightarrow> (False, i))"

definition marshal_U :: "uint32_t \<Rightarrow> gvariant option" where
  "marshal_U i = Some (GUInt32 i)"

definition unmarshal_U :: "gvariant \<Rightarrow> uint32_t \<Rightarrow> bool \<times> uint32_t" where
  "unmarshal_U gv i = (case gv of GUInt32 x \<Rightarrow> (True, x) | _ \<Rightarrow> (False, i))"

definition marshal_Y :: "uint8_t \<Rightarrow> gvariant option" where
  "marshal_Y b = Some (GByte b)"

definition unmarshal_Y :: "gvariant \<Rightarrow> uint8_t \<Rightarrow> bool \<times> uint8_t" where
  "unmarshal_Y gv b = (case gv of GByte x \<Rightarrow> (True, x) | _ \<Rightarrow> (False, b))"

definition marshal_N :: "int16_t \<Rightarrow> gvariant option" where
  "marshal_N i = Some (GInt16 i)"

definition unmarshal_N :: "gvariant \<Rightarrow> int16_t \<Rightarrow> bool \<times> int16_t" where
  "unmarshal_N gv i = (case gv of GInt16 x \<Rightarrow> (True, x) | _ \<Rightarrow> (False, i))"

definition marshal_T :: "uint64_t \<Rightarrow> gvariant option" where
  "marshal_T b = Some (GUInt64 b)"

definition unmarshal_T :: "gvariant \<Rightarrow> uint64_t \<Rightarrow> bool \<times> uint64_t" where
  "unmarshal_T gv b = (case gv of GUInt64 x \<Rightarrow> (True, x) | _ \<Rightarrow> (False, b))"

definition marshal_B :: "bool \<Rightarrow> gvariant option" where
  "marshal_B b = Some (GBoolean b)"

definition unmarshal_B :: "gvariant \<Rightarrow> bool \<Rightarrow> bool \<times> bool" where
  "unmarshal_B gv b = (case gv of GBoolean x \<Rightarrow> (True, x) | _ \<Rightarrow> (False, b))"

definition marshal_D :: "double \<Rightarrow> gvariant option" where
  "marshal_D x = Some (GDouble x)"

text \<open>
  The source assigns \<^verbatim>\<open>x = static_cast<bool>(g_variant_get_double(gv))\<close>.
\<close>

definition unmarshal_D :: "gvariant \<Rightarrow> double \<Rightarrow> bool \<times> double" where
  "unmarshal_D gv x =
     (case gv of GDouble d \<Rightarrow> (True, double_of_bool (bool_of_double d)) | _ \<Rightarrow> (False, x))"

definition marshal_O :: "externals \<Rightarrow> string \<Rightarrow> gvariant option" where
  "marshal_O X path =
     (if g_variant_is_object_path X (c_str path)
      then g_variant_new_object_path X (c_str path) else None)"

definition unmarshal_O :: "gvariant \<Rightarrow> string \<Rightarrow> bool \<times> string" where
  "unmarshal_O gv path = (case gv of GObjectPath str \<Rightarrow> (True, str) | _ \<Rightarrow> (False, path))"

definition marshal_V :: "externals \<Rightarrow> string \<Rightarrow> gvariant option" where
  "marshal_V X v = g_variant_new_variant (g_variant_new_string X (c_str v))"

definition unmarshal_V :: "externals \<Rightarrow> gvariant \<Rightarrow> string \<Rightarrow> bool \<times> string" where
  "unmarshal_V X gv v =
     (case gv of GVariantBox body \<Rightarrow> (True, g_variant_print X body) | _ \<Rightarrow> (False, []))"


subsection \<open>Round trips of the scalar types\<close>

text \<open>
  A value of a wire type is representable when GLib accepts it: a string is valid UTF-8
  without NUL, an object path is moreover a syntactically valid path. Integers, bytes and
  booleans always are.
\<close>

lemma c_str_id: "CHR 0x00 \<notin> set s \<Longrightarrow> c_str s = s"
  by (auto simp: c_str_def)

lemma round_trip_S:
  "CHR 0x00 \<notin> set s \<Longrightarrow> g_utf8_validate X s \<Longrightarrow>
   \<exists>gv. marshal_S X s = Some gv \<and> unmarshal_S gv old = (True, s)"
  by (simp add: marshal_S_def unmarshal_S_def g_variant_new_string_def c_str_id)

lemma round_trip_O:
  "CHR 0x00 \<notin> set s \<Longrightarrow> g_variant_is_object_path X s \<Longrightarrow>
   \<exists>gv. marshal_O X s = Some gv \<and> unmarshal_O gv old = (True, s)"
  by (simp add: marshal_O_def unmarshal_O_def g_variant_new_object_path_def c_str_id)

lemma round_trip_integers:
  "\<exists>gv. marshal_I i = Some gv \<and> unmarshal_I gv i0 = (True, i)"
  "\<exists>gv. marshal_U u = Some gv \<and> unmarshal_U gv u0 = (True, u)"
  "\<exists>gv. marshal_Y y = Some gv \<and> unmarshal_Y gv y0 = (True, y)"
  "\<exists>gv. marshal_N n = Some gv \<and> unmarshal_N gv n0 = (True, n)"
  "\<exists>gv. marshal_T t = Some gv \<and> unmarshal_T gv t0 = (True, t)"
  "\<exists>gv. marshal_B b = Some gv \<and> unmarshal_B gv b0 = (True, b)"
  by (simp_all add: marshal_I_def unmarshal_I_def marshal_U_def unmarshal_U_def
      marshal_Y_def unmarshal_Y_def marshal_N_def unmarshal_N_def
      marshal_T_def unmarshal_T_def marshal_B_def unmarshal_B_def)

text \<open>
  C2 at the double 2.5, whose bit pattern is \<open>0x4004000000000000\<close>: it is marshalled to
  the GVariant double 2.5, and unmarshalling that stores 1.0 (\<open>0x3FF0000000000000\<close>)
  while reporting success.
\<close>

theorem double_round_trip_fails:
  "marshal_D 0x4004000000000000 = Some (GDouble 0x4004000000000000)
   \<and> unmarshal_D (GDouble 0x4004000000000000) 0 = (True, 0x3FF0000000000000)
   \<and> (0x3FF0000000000000 :: double) \<noteq> 0x4004000000000000"
  by (simp add: marshal_D_def unmarshal_D_def bool_of_double_def double_of_bool_def)


section \<open>The client: errors, parameters, calls and the global state\<close>

subsection \<open>Classification of transport errors (\<^verbatim>\<open>gerror_t\<close>)\<close>

text \<open>
  A \<^verbatim>\<open>GError\<close> has a domain (a quark) and a code. \<^verbatim>\<open>G_DBUS_ERROR\<close> is the domain of
  the D-Bus errors; the three codes are the values of GLib's enumeration
  \<^verbatim>\<open>GDBusError\<close>.
\<close>

datatype gquark = G_DBUS_ERROR | OtherDomain nat

record gerror =
  domain :: gquark
  code :: int

definition G_DBUS_ERROR_SERVICE_UNKNOWN :: int where
  "G_DBUS_ERROR_SERVICE_UNKNOWN = 2"

definition G_DBUS_ERROR_ACCESS_DENIED :: int where
  "G_DBUS_ERROR_ACCESS_DENIED = 9"

definition G_DBUS_ERROR_DISCONNECTED :: int where
  "G_DBUS_ERROR_DISCONNECTED = 15"

datatype errcode_t = NOERR | SERVICE_UNKNOWN | SERVER_DISCONNECT | ACCESS_DENIED | UNSPECIFIED

definition errorMap :: "((gquark \<times> int) \<times> errcode_t) list" where
  "errorMap =
     [((G_DBUS_ERROR, G_DBUS_ERROR_SERVICE_UNKNOWN), SERVICE_UNKNOWN),
      ((G_DBUS_ERROR, G_DBUS_ERROR_DISCONNECTED), SERVER_DISCONNECT),
      ((G_DBUS_ERROR, G_DBUS_ERROR_ACCESS_DENIED), ACCESS_DENIED)]"

text \<open>\<open>err\<close> is the \<^verbatim>\<open>GError*\<close> held by the \<^verbatim>\<open>gerror_t\<close>; \<open>None\<close> is \<^verbatim>\<open>nullptr\<close>.\<close>

definition errType :: "gerror option \<Rightarrow> errcode_t" where
  "errType err =
     (case err of
        None \<Rightarrow> NOERR
      | Some e \<Rightarrow>
          (case map_of errorMap (domain e, code e) of
             Some c \<Rightarrow> c
           | None \<Rightarrow> UNSPECIFIED))"

definition retriableErrors :: "errcode_t set" where
  "retriableErrors = {SERVICE_UNKNOWN, SERVER_DISCONNECT}"

definition MAX_ATTEMPTS :: nat where
  "MAX_ATTEMPTS = 3"

definition WAIT_MS :: nat where
  "WAIT_MS = 250"


subsection \<open>What the client does to the outside\<close>

text \<open>
  The messages of \<^verbatim>\<open>logAssert\<close>, the sleeps, the proxies created, the remote calls made
  and the cleanup closures run are recorded in a trace.
\<close>

datatype log_msg =
    ErrOwners nat nat
  | ErrDestroyed
  | ErrNoProxy string
  | ErrGError errcode_t
  | ErrNull
  | ErrMarshal string
  | ErrUnmarshal string
  | ErrNoCall
  | ErrStray
  | ErrInvalid string

datatype event =
    Log log_msg
  | Sleep nat
  | ProxyNew string
  | ProxyCall nat string gvariant
  | Reset string


subsection \<open>Parameters and calls\<close>

text \<open>
  The native value of a \<^verbatim>\<open>GDBusParam\<close> lives in the object of the call; \<open>cells\<close> maps
  the address of a \<^verbatim>\<open>GDBusParam\<close> to its \<^verbatim>\<open>value\<close>. The closures of a \<^verbatim>\<open>param_t\<close>
  capture that address.
\<close>

datatype native =
    VString string
  | VInt32 int32_t
  | VUInt32 uint32_t
  | VByte uint8_t
  | VInt16 int16_t
  | VUInt64 uint64_t
  | VBool bool
  | VDouble double

type_synonym cells = "nat \<Rightarrow> native"

record param_t =
  name :: string
  type :: string
  marshal :: "(cells \<Rightarrow> gvariant option) option"
  unmarshal :: "(gvariant \<Rightarrow> cells \<Rightarrow> bool \<times> cells) option"
  cleanup :: "cells \<Rightarrow> cells"

record obj_desc_t =
  name :: string
  path :: string
  iface :: string

text \<open>The field \<^verbatim>\<open>method\<close> of \<^verbatim>\<open>call_t\<close> is \<open>method_name\<close> here.\<close>

record call_t =
  params :: "param_t list"
  object :: obj_desc_t
  method_name :: string

record proxy_t =
  proxy :: "nat option"
  obj_name :: string

text \<open>
  The global state of the client. A \<^verbatim>\<open>std::shared_ptr<call_t>\<close> is the number of the
  object it manages (\<open>None\<close> when empty); \<open>call_obj\<close> gives the managed objects and
  \<open>use_count\<close> their numbers of owners. Addresses of \<^verbatim>\<open>GDBusCall\<close> objects are numbers,
  0 being the null pointer. A \<^verbatim>\<open>GDBusProxy*\<close> is the serial number of its creation.
\<close>

record world =
  statics_initialized :: bool
  context_ptr :: bool
  loop_ptr :: bool
  is_running :: bool
  clock :: nat
  n_iterations :: nat
  proxies :: "string \<rightharpoonup> proxy_t"
  n_proxies :: nat
  calls :: "nat \<rightharpoonup> nat option"
  call_obj :: "nat \<Rightarrow> call_t"
  use_count :: "nat \<Rightarrow> nat"
  n_shared :: nat
  storage_destroyed :: bool
  callUnderConstruction :: nat
  cells :: cells
  n_calls :: nat
  trace :: "event list"

definition logAssert :: "bool \<Rightarrow> log_msg \<Rightarrow> world \<Rightarrow> bool \<times> world" where
  "logAssert f err w = (f, if f then w else w\<lparr>trace := trace w @ [Log err]\<rparr>)"


subsection \<open>The call registry (\<^verbatim>\<open>call_storage_t\<close>)\<close>

type_synonym call_ptr_t = "nat option"

definition ptr_use_count :: "call_ptr_t \<Rightarrow> world \<Rightarrow> nat" where
  "ptr_use_count ptr w = (case ptr of None \<Rightarrow> 0 | Some c \<Rightarrow> use_count w c)"

text \<open>Copying and destroying a \<^verbatim>\<open>shared_ptr\<close>.\<close>

definition shared_copy :: "call_ptr_t \<Rightarrow> world \<Rightarrow> world" where
  "shared_copy ptr w =
     (case ptr of None \<Rightarrow> w | Some c \<Rightarrow> w\<lparr>use_count := (use_count w)(c := use_count w c + 1)\<rparr>)"

definition shared_release :: "call_ptr_t \<Rightarrow> world \<Rightarrow> world" where
  "shared_release ptr w =
     (case ptr of None \<Rightarrow> w | Some c \<Rightarrow> w\<lparr>use_count := (use_count w)(c := use_count w c - 1)\<rparr>)"

definition verboseStateCheck :: "world \<Rightarrow> bool \<times> world" where
  "verboseStateCheck w = logAssert (\<not> storage_destroyed w) ErrDestroyed w"

definition verboseCheckOwnership :: "call_ptr_t \<Rightarrow> nat \<Rightarrow> world \<Rightarrow> bool \<times> world" where
  "verboseCheckOwnership call n_owners w =
     (let n_users = ptr_use_count call w
      in logAssert (n_users = n_owners \<or> n_users = 0) (ErrOwners n_owners n_users) w)"

text \<open>The destructor of a \<^verbatim>\<open>call_guard_t\<close> holding the pointer \<open>call\<close>.\<close>

definition call_guard_dtor :: "call_ptr_t \<Rightarrow> world \<Rightarrow> world" where
  "call_guard_dtor call w =
     (let w1 = (if \<not> storage_destroyed w then snd (verboseCheckOwnership call 2 w) else w)
      in shared_release call w1)"

text \<open>
  \<^verbatim>\<open>call_storage_t::add\<close>: \<^verbatim>\<open>std::make_shared\<close> creates a new managed object with one
  owner; \<^verbatim>\<open>emplace\<close> keeps an entry that exists, and the new object then loses its only
  owner.
\<close>

definition add_call :: "nat \<Rightarrow> call_t \<Rightarrow> world \<Rightarrow> world" where
  "add_call p call w =
     (let (ok, w0) = verboseStateCheck w
      in if ok then
           (let c = Suc (n_shared w0);
                w1 = w0\<lparr>n_shared := c, call_obj := (call_obj w0)(c := call),
                        use_count := (use_count w0)(c := 1)\<rparr>
            in case calls w1 p of
                 None \<Rightarrow> w1\<lparr>calls := (calls w1)(p \<mapsto> Some c)\<rparr>
               | Some _ \<Rightarrow> shared_release (Some c) w1)
         else w0)"

text \<open>
  \<^verbatim>\<open>call_storage_t::get\<close>. \<^verbatim>\<open>calls[p]\<close> creates an empty pointer when \<open>p\<close> has no entry.
  The guard's constructor copies the pointer (its parameter is a named rvalue
  reference), so the entry keeps its own. When the ownership check passes, the guard is
  moved out and the moved-from guard, now empty, is destroyed. Otherwise the function
  falls through: it returns an empty guard and the local guard is destroyed.
\<close>

definition get_call :: "nat \<Rightarrow> world \<Rightarrow> call_ptr_t \<times> world" where
  "get_call p w =
     (let (ok, w0) = verboseStateCheck w
      in if ok then
           (let ptr = (case calls w0 p of Some q \<Rightarrow> q | None \<Rightarrow> None);
                w1 = w0\<lparr>calls := (calls w0)(p \<mapsto> ptr)\<rparr>;
                w2 = shared_copy ptr w1;
                (good, w3) = verboseCheckOwnership ptr 2 w2
            in if good then (ptr, call_guard_dtor None w3)
               else (None, call_guard_dtor ptr w3))
         else (None, w0))"

definition remove_call :: "nat \<Rightarrow> world \<Rightarrow> world" where
  "remove_call p w =
     (let (ok, w0) = verboseStateCheck w
      in if ok then
           (case calls w0 p of
              None \<Rightarrow> w0
            | Some ptr \<Rightarrow> shared_release ptr (w0\<lparr>calls := (calls w0)(p := None)\<rparr>))
         else w0)"

lemma call_guard_dtor_None [simp]: "call_guard_dtor None w = w"
  by (simp add: call_guard_dtor_def verboseCheckOwnership_def ptr_use_count_def logAssert_def
      shared_release_def)


subsection \<open>The environment\<close>

text \<open>
  What the bus and GLib's main loop answer. The \<open>k\<close>-th creation of a proxy succeeds
  (\<open>None\<close>) or sets an error; the \<open>k\<close>-th remote call returns an error (and
  \<^verbatim>\<open>NULL\<close>) or the tuple of the reply; the \<open>k\<close>-th iteration of the main context
  takes some milliseconds, during which the loop may be quit.
\<close>

record env =
  g_main_context_new_ok :: bool
  g_dbus_proxy_new_for_bus_sync :: "nat \<Rightarrow> obj_desc_t \<Rightarrow> gerror option"
  g_dbus_proxy_call_sync :: "nat \<Rightarrow> nat \<Rightarrow> string \<Rightarrow> gvariant \<Rightarrow> gerror + gvariant"
  iteration_msec :: "nat \<Rightarrow> nat"
  iteration_quits :: "nat \<Rightarrow> bool"
  sizeof_GDBusCall :: nat


subsection \<open>The signal dispatch loop\<close>

text \<open>
  \<^verbatim>\<open>mainLoopInstance\<close> has two function-local statics, \<^verbatim>\<open>context\<close> and \<^verbatim>\<open>loop\<close>. Their
  initialisers run on the first invocation only. \<open>context_ptr\<close> and \<open>loop_ptr\<close> say
  whether the pointers are non-null, \<open>is_running\<close> is the flag of the loop object. The
  result is whether the returned pointer is non-null.
\<close>

definition mainLoopInstance :: "env \<Rightarrow> world \<Rightarrow> bool \<times> world" where
  "mainLoopInstance E w =
     (let w1 = (if statics_initialized w then w
                else w\<lparr>statics_initialized := True,
                       context_ptr := g_main_context_new_ok E,
                       loop_ptr := g_main_context_new_ok E,
                       is_running := g_main_context_new_ok E\<rparr>);
          w2 = (if context_ptr w1 then w1\<lparr>context_ptr := False\<rparr> else w1);
          w3 = (if loop_ptr w2 \<and> \<not> is_running w2 then w2\<lparr>loop_ptr := False\<rparr> else w2)
      in (loop_ptr w3, w3))"

definition g_main_loop_quit :: "world \<Rightarrow> world" where
  "g_main_loop_quit w = w\<lparr>is_running := False\<rparr>"

definition g_main_context_iteration :: "env \<Rightarrow> world \<Rightarrow> world" where
  "g_main_context_iteration E w =
     w\<lparr>n_iterations := Suc (n_iterations w),
       clock := clock w + iteration_msec E (n_iterations w),
       is_running := is_running w \<and> \<not> iteration_quits E (n_iterations w)\<rparr>"

definition WAIT_FOREVER :: nat where
  "WAIT_FOREVER = 4294967295"

text \<open>
  The \<^verbatim>\<open>for\<close> loop of \<^verbatim>\<open>waitAndProcessSignals\<close>. It need not end (\<^verbatim>\<open>WAIT_FOREVER\<close>), so
  it runs on fuel: \<open>None\<close> means that the fuel did not suffice.
\<close>

fun wait_loop :: "env \<Rightarrow> nat \<Rightarrow> nat \<Rightarrow> nat \<Rightarrow> world \<Rightarrow> world option" where
  "wait_loop E 0 wait_msec t_end w = None"
| "wait_loop E (Suc fuel) wait_msec t_end w =
     (let (l, w1) = mainLoopInstance E w
      in if l \<and> (wait_msec = WAIT_FOREVER \<or> t_end > clock w1) then
           (let (context, w2) = mainLoopInstance E w1;
                w3 = (if context then g_main_context_iteration E w2 else w2)
            in wait_loop E fuel wait_msec t_end w3)
         else Some w1)"

text \<open>
  The timeout source that \<^verbatim>\<open>loop_timeout_t\<close> attaches and destroys only makes the
  iterations return in time; how long they take is the environment's.
\<close>

definition waitAndProcessSignals :: "env \<Rightarrow> nat \<Rightarrow> nat \<Rightarrow> world \<Rightarrow> (bool \<times> world) option" where
  "waitAndProcessSignals E fuel wait_msec w =
     (let (l0, w0) = mainLoopInstance E w;
          t_end = clock w0 + wait_msec
      in case wait_loop E fuel wait_msec t_end w0 of
           None \<Rightarrow> None
         | Some w1 \<Rightarrow> Some (mainLoopInstance E w1))"

definition stopProcessingSignals :: "env \<Rightarrow> world \<Rightarrow> world" where
  "stopProcessingSignals E w =
     (let (l, w1) = mainLoopInstance E w
      in if l then snd (mainLoopInstance E (g_main_loop_quit w1)) else w1)"

lemma stopped_state:
  "statics_initialized (stopProcessingSignals E w)
   \<and> \<not> context_ptr (stopProcessingSignals E w)
   \<and> \<not> loop_ptr (stopProcessingSignals E w)"
  by (simp add: stopProcessingSignals_def mainLoopInstance_def g_main_loop_quit_def Let_def)

lemma mainLoopInstance_torn_down:
  "statics_initialized w \<Longrightarrow> \<not> context_ptr w \<Longrightarrow> \<not> loop_ptr w \<Longrightarrow>
   mainLoopInstance E w = (False, w)"
  by (simp add: mainLoopInstance_def)

text \<open>
  C6 (as the code has it). Once \<^verbatim>\<open>stopProcessingSignals\<close> has run, the loop pointer is
  null and the statics are not initialised again: a later \<^verbatim>\<open>waitAndProcessSignals\<close>,
  in whatever environment and with whatever timeout, iterates nothing, changes nothing
  and returns false.
\<close>

theorem wait_after_stop_returns_false:
  "\<not> loop_ptr (stopProcessingSignals E w)
   \<and> waitAndProcessSignals E' (Suc fuel) wait_msec (stopProcessingSignals E w)
       = Some (False, stopProcessingSignals E w)"
proof -
  let ?w = "stopProcessingSignals E w"
  have m: "mainLoopInstance E' ?w = (False, ?w)"
    using stopped_state [of E w] by (simp add: mainLoopInstance_torn_down)
  then show ?thesis
    using stopped_state [of E w] by (simp add: waitAndProcessSignals_def)
qed


subsection \<open>The endpoint pool (\<^verbatim>\<open>proxy_t\<close>)\<close>

datatype Policy = USE_EXISTING | RECREATE

definition gerror_verboseCheckNoErr :: "gerror option \<Rightarrow> world \<Rightarrow> bool \<times> world" where
  "gerror_verboseCheckNoErr err w =
     (case err of None \<Rightarrow> (True, w) | Some e \<Rightarrow> logAssert False (ErrGError (errType err)) w)"

definition proxy_verboseCheckNoErr :: "proxy_t \<Rightarrow> world \<Rightarrow> bool \<times> world" where
  "proxy_verboseCheckNoErr q w = logAssert (proxy q \<noteq> None) (ErrNoProxy (obj_name q)) w"

text \<open>
  The constructor \<^verbatim>\<open>proxy_t(const obj_desc_t&)\<close>. The context switcher calls
  \<^verbatim>\<open>mainLoopInstance\<close>. A proxy that has been created gets the next serial number.
\<close>

definition proxy_ctor :: "env \<Rightarrow> obj_desc_t \<Rightarrow> world \<Rightarrow> proxy_t \<times> world" where
  "proxy_ctor E obj w =
     (let (l, w1) = mainLoopInstance E w;
          k = n_proxies w1;
          err = g_dbus_proxy_new_for_bus_sync E k obj;
          w2 = w1\<lparr>n_proxies := Suc k, trace := trace w1 @ [ProxyNew (obj_desc_t.name obj)]\<rparr>;
          (ok, w3) = gerror_verboseCheckNoErr err w2
      in (\<lparr>proxy = (if err = None then Some (Suc k) else None),
           obj_name = obj_desc_t.name obj\<rparr>, w3))"

text \<open>The move assignment of \<^verbatim>\<open>proxy_t\<close>: nothing happens when both pointers are equal.\<close>

definition proxy_move_assign :: "proxy_t \<Rightarrow> proxy_t \<Rightarrow> proxy_t" where
  "proxy_move_assign this q =
     (if proxy this \<noteq> proxy q then \<lparr>proxy = proxy q, obj_name = obj_name q\<rparr> else this)"

definition target_of :: "obj_desc_t \<Rightarrow> string" where
  "target_of obj = obj_desc_t.name obj @ '' '' @ path obj @ '' '' @ iface obj"

text \<open>
  \<^verbatim>\<open>proxy_t::instanceFor\<close>. \<^verbatim>\<open>proxies[target]\<close> creates a default \<^verbatim>\<open>proxy_t\<close> when the
  target has no entry. The result is the entry of the target.
\<close>

definition instanceFor :: "env \<Rightarrow> obj_desc_t \<Rightarrow> Policy \<Rightarrow> world \<Rightarrow> proxy_t \<times> world" where
  "instanceFor E obj policy w =
     (let target = target_of obj;
          slot = (case proxies w target of Some q \<Rightarrow> q | None \<Rightarrow> \<lparr>proxy = None, obj_name = []\<rparr>);
          w0 = w\<lparr>proxies := (proxies w)(target \<mapsto> slot)\<rparr>
      in if policy = RECREATE \<or> proxy slot = None then
           (let (q, w1) = proxy_ctor E obj w0;
                slot' = proxy_move_assign slot q
            in (slot', w1\<lparr>proxies := (proxies w1)(target \<mapsto> slot')\<rparr>))
         else (slot, w0))"

text \<open>\<open>n\<close> lookups in a row with \<^verbatim>\<open>USE_EXISTING\<close>, and the endpoints they return.\<close>

fun lookups :: "env \<Rightarrow> obj_desc_t \<Rightarrow> nat \<Rightarrow> world \<Rightarrow> proxy_t list \<times> world" where
  "lookups E obj 0 w = ([], w)"
| "lookups E obj (Suc n) w =
     (let (q, w1) = instanceFor E obj USE_EXISTING w;
          (qs, w2) = lookups E obj n w1
      in (q # qs, w2))"

lemma instanceFor_cached:
  "proxies w (target_of obj) = Some q \<Longrightarrow> proxy q \<noteq> None \<Longrightarrow>
   instanceFor E obj USE_EXISTING w = (q, w)"
  by (auto simp: instanceFor_def Let_def fun_upd_idem)

lemma lookups_cached:
  "proxies w (target_of obj) = Some q \<Longrightarrow> proxy q \<noteq> None \<Longrightarrow>
   lookups E obj n w = (replicate n q, w)"
  by (induction n) (simp_all add: instanceFor_cached)

lemma proxies_mainLoopInstance [simp]: "proxies (snd (mainLoopInstance E w)) = proxies w"
  by (simp add: mainLoopInstance_def Let_def)

lemma n_proxies_mainLoopInstance [simp]: "n_proxies (snd (mainLoopInstance E w)) = n_proxies w"
  by (simp add: mainLoopInstance_def Let_def)

lemma proxy_ctor_facts:
  "proxy (fst (proxy_ctor E obj w))
     = (if g_dbus_proxy_new_for_bus_sync E (n_proxies w) obj = None
        then Some (Suc (n_proxies w)) else None)"
  "n_proxies (snd (proxy_ctor E obj w)) = Suc (n_proxies w)"
  "proxies (snd (proxy_ctor E obj w)) = proxies w"
  by (simp_all add: proxy_ctor_def split_def Let_def gerror_verboseCheckNoErr_def logAssert_def
      split: option.splits)

lemma proxies_instanceFor:
  "proxies (snd (instanceFor E obj policy w)) (target_of obj)
     = Some (fst (instanceFor E obj policy w))"
  by (simp add: instanceFor_def Let_def split_def)

lemma instanceFor_creates:
  assumes "policy = RECREATE \<or> proxies w (target_of obj) = None
           \<or> (\<exists>q. proxies w (target_of obj) = Some q \<and> proxy q = None)"
  shows "proxy (fst (instanceFor E obj policy w))
           = (if g_dbus_proxy_new_for_bus_sync E (n_proxies w) obj = None
              then Some (Suc (n_proxies w)) else None)"
    and "n_proxies (snd (instanceFor E obj policy w)) = Suc (n_proxies w)"
  using assms
  by (auto simp: instanceFor_def Let_def split_def proxy_move_assign_def proxy_ctor_facts)

lemma join_inj:
  "CHR '' '' \<notin> set a \<Longrightarrow> CHR '' '' \<notin> set a' \<Longrightarrow>
   a @ '' '' @ r = a' @ '' '' @ r' \<Longrightarrow> a = a' \<and> r = r'"
proof (induction a arbitrary: a')
  case Nil
  then show ?case by (cases a') auto
next
  case (Cons x xs)
  then show ?case by (cases a') auto
qed

lemma target_of_inj:
  assumes "CHR '' '' \<notin> set (obj_desc_t.name obj)" "CHR '' '' \<notin> set (path obj)"
    and "CHR '' '' \<notin> set (obj_desc_t.name obj')" "CHR '' '' \<notin> set (path obj')"
    and "target_of obj = target_of obj'"
  shows "obj = obj'"
proof -
  have 1: "obj_desc_t.name obj = obj_desc_t.name obj'
           \<and> path obj @ '' '' @ iface obj = path obj' @ '' '' @ iface obj'"
    using assms(1,3,5) unfolding target_of_def by (rule join_inj)
  then have "path obj = path obj' \<and> iface obj = iface obj'"
    using assms(2,4) by (intro join_inj) simp_all
  with 1 show ?thesis by simp
qed

lemma proxies_instanceFor_other:
  "t \<noteq> target_of obj \<Longrightarrow> proxies (snd (instanceFor E obj policy w)) t = proxies w t"
  by (simp add: instanceFor_def Let_def split_def proxy_ctor_facts)

text \<open>
  C7. The pool is keyed by the string \<^verbatim>\<open>name + " " + path + " " + iface\<close>, which names one
  triple only when names and paths hold no space, and after a lookup with either policy
  the entry of that key is the endpoint returned while every other entry is as before.
  With \<^verbatim>\<open>USE_EXISTING\<close>, a lookup for a triple that has no entry, or an entry without a
  proxy, performs one creation: the endpoint returned holds the newly created proxy, or
  none when the creation failed. A lookup for a triple whose entry holds a proxy returns
  that entry, creates nothing and leaves the state as it is; so once a lookup has
  returned a valid endpoint, any number of further lookups for that triple return that
  same endpoint. With \<^verbatim>\<open>RECREATE\<close> a lookup always performs one creation and replaces the
  entry of the triple: the endpoint returned is the entry, and it holds the newly
  created proxy (or none, when the creation failed).
\<close>

theorem endpoint_pool_lookup_policies:
  "(proxy (fst (instanceFor E obj USE_EXISTING w)) \<noteq> None \<longrightarrow>
      lookups E obj n (snd (instanceFor E obj USE_EXISTING w))
        = (replicate n (fst (instanceFor E obj USE_EXISTING w)),
           snd (instanceFor E obj USE_EXISTING w)))
   \<and> n_proxies (snd (instanceFor E obj RECREATE w)) = Suc (n_proxies w)
   \<and> proxies (snd (instanceFor E obj RECREATE w)) (target_of obj)
       = Some (fst (instanceFor E obj RECREATE w))
   \<and> proxy (fst (instanceFor E obj RECREATE w))
       = (if g_dbus_proxy_new_for_bus_sync E (n_proxies w) obj = None
          then Some (Suc (n_proxies w)) else None)
   \<and> target_of obj = obj_desc_t.name obj @ '' '' @ path obj @ '' '' @ iface obj
   \<and> (CHR '' '' \<notin> set (obj_desc_t.name obj) \<and> CHR '' '' \<notin> set (path obj)
        \<and> CHR '' '' \<notin> set (obj_desc_t.name obj') \<and> CHR '' '' \<notin> set (path obj')
        \<and> target_of obj = target_of obj' \<longrightarrow> obj = obj')
   \<and> proxies (snd (instanceFor E obj policy w)) (target_of obj)
       = Some (fst (instanceFor E obj policy w))
   \<and> (t \<noteq> target_of obj \<longrightarrow> proxies (snd (instanceFor E obj policy w)) t = proxies w t)
   \<and> ((case proxies w (target_of obj) of None \<Rightarrow> True | Some q \<Rightarrow> proxy q = None) \<longrightarrow>
        n_proxies (snd (instanceFor E obj USE_EXISTING w)) = Suc (n_proxies w)
        \<and> proxy (fst (instanceFor E obj USE_EXISTING w))
            = (if g_dbus_proxy_new_for_bus_sync E (n_proxies w) obj = None
               then Some (Suc (n_proxies w)) else None))
   \<and> (proxies w (target_of obj) = Some q \<and> proxy q \<noteq> None \<longrightarrow>
        instanceFor E obj USE_EXISTING w = (q, w))"
proof -
  have rep: "proxy (fst (instanceFor E obj USE_EXISTING w)) \<noteq> None \<longrightarrow>
      lookups E obj n (snd (instanceFor E obj USE_EXISTING w))
        = (replicate n (fst (instanceFor E obj USE_EXISTING w)),
           snd (instanceFor E obj USE_EXISTING w))"
    using lookups_cached [OF proxies_instanceFor] by blast
  have rc: "n_proxies (snd (instanceFor E obj RECREATE w)) = Suc (n_proxies w)"
    "proxy (fst (instanceFor E obj RECREATE w))
       = (if g_dbus_proxy_new_for_bus_sync E (n_proxies w) obj = None
          then Some (Suc (n_proxies w)) else None)"
    by (simp_all add: instanceFor_creates)
  have tg: "target_of obj = obj_desc_t.name obj @ '' '' @ path obj @ '' '' @ iface obj"
    by (simp add: target_of_def)
  have inj: "CHR '' '' \<notin> set (obj_desc_t.name obj) \<and> CHR '' '' \<notin> set (path obj)
        \<and> CHR '' '' \<notin> set (obj_desc_t.name obj') \<and> CHR '' '' \<notin> set (path obj')
        \<and> target_of obj = target_of obj' \<longrightarrow> obj = obj'"
    using target_of_inj [of obj obj'] by blast
  have fr: "t \<noteq> target_of obj \<longrightarrow> proxies (snd (instanceFor E obj policy w)) t = proxies w t"
    by (simp add: proxies_instanceFor_other)
  have cr: "(case proxies w (target_of obj) of None \<Rightarrow> True | Some q \<Rightarrow> proxy q = None) \<longrightarrow>
        n_proxies (snd (instanceFor E obj USE_EXISTING w)) = Suc (n_proxies w)
        \<and> proxy (fst (instanceFor E obj USE_EXISTING w))
            = (if g_dbus_proxy_new_for_bus_sync E (n_proxies w) obj = None
               then Some (Suc (n_proxies w)) else None)"
  proof
    assume a: "case proxies w (target_of obj) of None \<Rightarrow> True | Some q \<Rightarrow> proxy q = None"
    have "USE_EXISTING = RECREATE \<or> proxies w (target_of obj) = None
           \<or> (\<exists>q. proxies w (target_of obj) = Some q \<and> proxy q = None)"
      using a by (cases "proxies w (target_of obj)") simp_all
    then show "n_proxies (snd (instanceFor E obj USE_EXISTING w)) = Suc (n_proxies w)
        \<and> proxy (fst (instanceFor E obj USE_EXISTING w))
            = (if g_dbus_proxy_new_for_bus_sync E (n_proxies w) obj = None
               then Some (Suc (n_proxies w)) else None)"
      using instanceFor_creates [of USE_EXISTING w obj E] by simp
  qed
  have ca: "proxies w (target_of obj) = Some q \<and> proxy q \<noteq> None \<longrightarrow>
        instanceFor E obj USE_EXISTING w = (q, w)"
    using instanceFor_cached [of w obj q E] by blast
  show ?thesis
    by (intro conjI rep rc tg inj fr cr ca proxies_instanceFor)
qed


subsection \<open>The synchronous call (\<^verbatim>\<open>GDBusCall::callSync\<close>)\<close>

definition verboseNonNull :: "'a option \<Rightarrow> world \<Rightarrow> bool \<times> world" where
  "verboseNonNull p w = logAssert (p \<noteq> None) ErrNull w"

definition verboseCheckMarshalled :: "param_t \<Rightarrow> gvariant option \<Rightarrow> world \<Rightarrow> bool \<times> world" where
  "verboseCheckMarshalled p v w = logAssert (v \<noteq> None) (ErrMarshal (param_t.name p)) w"

definition verboseCheckUnmarshalled :: "param_t \<Rightarrow> bool \<Rightarrow> world \<Rightarrow> bool \<times> world" where
  "verboseCheckUnmarshalled p result w = logAssert result (ErrUnmarshal (param_t.name p)) w"

text \<open>
  The first loop of \<^verbatim>\<open>callSync\<close>: the input parameters are marshalled into
  \<^verbatim>\<open>in_variants\<close>. \<open>None\<close> stands for \<^verbatim>\<open>return false\<close>.
\<close>

fun marshal_inputs :: "param_t list \<Rightarrow> gvariant list \<Rightarrow> world \<Rightarrow> gvariant list option \<times> world" where
  "marshal_inputs [] in_variants w = (Some in_variants, w)"
| "marshal_inputs (in_param # rest) in_variants w =
     (case marshal in_param of
        None \<Rightarrow> marshal_inputs rest in_variants w
      | Some m \<Rightarrow>
          (let in_variant = m (cells w);
               (ok, w1) = verboseCheckMarshalled in_param in_variant w
           in if \<not> ok then (None, w1)
              else (let (nonnull, w2) = verboseNonNull in_variant w1
                    in case in_variant of
                         None \<Rightarrow> (None, w2)
                       | Some v \<Rightarrow> marshal_inputs rest (in_variants @ [v]) w2)))"

text \<open>
  The retry loop \<^verbatim>\<open>for (int attempts = MAX_ATTEMPTS; !out_tuple && attempts; attempts--)\<close>.
  The result \<open>None\<close> stands for the \<^verbatim>\<open>return false\<close> inside the loop; otherwise the loop
  ends, by its condition or by \<^verbatim>\<open>break\<close>, with the values of \<^verbatim>\<open>out_tuple\<close> and
  \<^verbatim>\<open>err\<close>.
\<close>

fun attempts_loop ::
  "env \<Rightarrow> call_t \<Rightarrow> gvariant \<Rightarrow> nat \<Rightarrow> gvariant option \<Rightarrow> gerror option \<Rightarrow> world
   \<Rightarrow> (gvariant option \<times> gerror option) option \<times> world" where
  "attempts_loop E call in_tuple 0 out_tuple err w = (Some (out_tuple, err), w)"
| "attempts_loop E call in_tuple (Suc n) out_tuple err w =
     (if out_tuple \<noteq> None then (Some (out_tuple, err), w)
      else if errType err \<notin> retriableErrors \<and> errType err \<noteq> NOERR
      then (Some (out_tuple, err), w)
      else
        (let w0 = (if errType err \<in> retriableErrors
                   then w\<lparr>trace := trace w @ [Sleep WAIT_MS]\<rparr> else w);
             proxy_policy = (if Suc n = MAX_ATTEMPTS then USE_EXISTING else RECREATE);
             (prx, w1) = instanceFor E (object call) proxy_policy w0;
             (valid, w2) = proxy_verboseCheckNoErr prx w1
         in case proxy prx of
              None \<Rightarrow> (None, w2)
            | Some pid \<Rightarrow>
                (let reply = g_dbus_proxy_call_sync E (n_calls w2) pid (method_name call) in_tuple;
                     w3 = w2\<lparr>n_calls := Suc (n_calls w2),
                             trace := trace w2 @ [ProxyCall pid (method_name call) in_tuple]\<rparr>
                 in case reply of
                      Inl e \<Rightarrow> attempts_loop E call in_tuple n None (Some e) w3
                    | Inr t \<Rightarrow> attempts_loop E call in_tuple n (Some t) None w3)))"

text \<open>\<^verbatim>\<open>variant_holder_t::from_tuple\<close>: the children of the reply.\<close>

fun from_tuple :: "gvariant \<Rightarrow> gvariant list" where
  "from_tuple (GTuple vs) = vs"
| "from_tuple (GArray vs) = vs"
| "from_tuple (GVariantBox v) = [v]"
| "from_tuple _ = []"

text \<open>
  The last loop of \<^verbatim>\<open>callSync\<close>: the children of the reply are unmarshalled into the
  output parameters, in order; the result is whether the loop ran to its end. The
  children that \<^verbatim>\<open>from_tuple\<close> adopted are never null, so \<^verbatim>\<open>verboseNonNull\<close> on
  them always passes.
\<close>

fun unmarshal_outputs :: "param_t list \<Rightarrow> gvariant list \<Rightarrow> world \<Rightarrow> bool \<times> world" where
  "unmarshal_outputs [] out_variants w = (True, w)"
| "unmarshal_outputs (out_param # rest) out_variants w =
     (case unmarshal out_param of
        None \<Rightarrow> unmarshal_outputs rest out_variants w
      | Some u \<Rightarrow>
          (case out_variants of
             [] \<Rightarrow> (False, w)
           | v # vs \<Rightarrow>
               (let (r, c) = u v (cells w);
                    (ok, w1) = verboseCheckUnmarshalled out_param r (w\<lparr>cells := c\<rparr>)
                in if \<not> ok then (False, w1) else unmarshal_outputs rest vs w1)))"

text \<open>
  The destructor of \<^verbatim>\<open>call_cleanup_guard_t\<close>: unless \<^verbatim>\<open>setSuccess\<close> was called, the
  cleanup closure of every parameter of the call runs.
\<close>

definition run_cleanup :: "param_t \<Rightarrow> world \<Rightarrow> world" where
  "run_cleanup param w =
     w\<lparr>cells := cleanup param (cells w), trace := trace w @ [Reset (param_t.name param)]\<rparr>"

definition call_cleanup_guard_dtor :: "call_t \<Rightarrow> bool \<Rightarrow> world \<Rightarrow> world" where
  "call_cleanup_guard_dtor call result w =
     (if \<not> result then fold run_cleanup (params call) w else w)"

text \<open>
  The body of \<^verbatim>\<open>callSync\<close> from the construction of the cleanup guard on; the flag is
  the returned value, which is also the guard's \<^verbatim>\<open>result\<close>.
\<close>

definition callSync_body :: "env \<Rightarrow> call_t \<Rightarrow> world \<Rightarrow> bool \<times> world" where
  "callSync_body E call w =
     (case marshal_inputs (params call) [] w of
        (None, w1) \<Rightarrow> (False, w1)
      | (Some in_variants, w1) \<Rightarrow>
          (case attempts_loop E call (GTuple in_variants) MAX_ATTEMPTS None None w1 of
             (None, w2) \<Rightarrow> (False, w2)
           | (Some (out_tuple, err), w2) \<Rightarrow>
               (let (noerr, w3) = gerror_verboseCheckNoErr err w2
                in if \<not> noerr then (False, w3)
                   else (let (nonnull, w4) = verboseNonNull out_tuple w3
                         in case out_tuple of
                              None \<Rightarrow> (False, w4)
                            | Some t \<Rightarrow> unmarshal_outputs (params call) (from_tuple t) w4))))"

text \<open>
  \<^verbatim>\<open>callSync\<close>. When the registry gives an empty guard it returns before the cleanup
  guard exists. Otherwise the cleanup guard is destroyed first, then the call guard.
\<close>

definition callSync :: "env \<Rightarrow> nat \<Rightarrow> world \<Rightarrow> bool \<times> world" where
  "callSync E this w =
     (let (call_guard, w1) = get_call this w
      in case call_guard of
           None \<Rightarrow> (False, w1)
         | Some c \<Rightarrow>
             (let call = call_obj w1 c;
                  (result, w2) = callSync_body E call w1;
                  w3 = call_cleanup_guard_dtor call result w2
              in (result, call_guard_dtor (Some c) w3)))"


text \<open>
  C3 (as the code has it). When \<^verbatim>\<open>get\<close> finds the descriptor registered and, with its
  own guard counted, observes an ownership count other than two, it logs the violation
  (at the check and again when its guard is destroyed) and returns an empty guard; the
  registry and the ownership count are left as they were. \<^verbatim>\<open>callSync\<close> on that
  descriptor then returns false and does nothing beyond that acquire.
\<close>

theorem get_returns_empty_guard_on_ownership_violation:
  assumes "\<not> storage_destroyed w" and "calls w p = Some (Some c)" and "use_count w c + 1 \<noteq> 2"
  shows "fst (get_call p w) = None
       \<and> trace (snd (get_call p w))
           = trace w @ [Log (ErrOwners 2 (use_count w c + 1)), Log (ErrOwners 2 (use_count w c + 1))]
       \<and> calls (snd (get_call p w)) = calls w
       \<and> use_count (snd (get_call p w)) = use_count w
       \<and> callSync E p w = (False, snd (get_call p w))"
proof -
  have g: "fst (get_call p w) = None
       \<and> trace (snd (get_call p w))
           = trace w @ [Log (ErrOwners 2 (use_count w c + 1)), Log (ErrOwners 2 (use_count w c + 1))]
       \<and> calls (snd (get_call p w)) = calls w
       \<and> use_count (snd (get_call p w)) = use_count w"
    using assms
    by (auto simp: get_call_def verboseStateCheck_def logAssert_def Let_def shared_copy_def
        verboseCheckOwnership_def ptr_use_count_def call_guard_dtor_def shared_release_def)
  then have "callSync E p w = (False, snd (get_call p w))"
    by (simp add: callSync_def split_def Let_def)
  with g show ?thesis
    by simp
qed


subsection \<open>Construction of calls and parameters\<close>

definition MAX_CALL_BODY_SIZE :: nat where
  "MAX_CALL_BODY_SIZE = 4 * 1024"

text \<open>
  \<^verbatim>\<open>param_t::verboseCheckNoErr\<close>. \<^verbatim>\<open>call + MAX_CALL_BODY_SIZE\<close> is pointer arithmetic on a
  \<^verbatim>\<open>const GDBusCall*\<close>.
\<close>

definition param_verboseCheckNoErr :: "env \<Rightarrow> nat \<Rightarrow> nat \<Rightarrow> world \<Rightarrow> bool \<times> world" where
  "param_verboseCheckNoErr E gdbus_par call w =
     (let par_in_call = (gdbus_par \<ge> call
                         \<and> gdbus_par < call + MAX_CALL_BODY_SIZE * sizeof_GDBusCall E);
          (a, w1) = logAssert (call \<noteq> 0) ErrNoCall w
      in if a then logAssert par_in_call ErrStray w1 else (False, w1))"

text \<open>
  The two constructors of \<^verbatim>\<open>param_t\<close>. \<open>conv\<close> is the converter selected by the
  template arguments, \<open>dflt\<close> the value-initialised \<^verbatim>\<open>ValueT\<close>.
\<close>

definition param_in ::
  "env \<Rightarrow> nat \<Rightarrow> string \<Rightarrow> string \<Rightarrow> (native \<Rightarrow> gvariant option) \<Rightarrow> native \<Rightarrow> world
   \<Rightarrow> param_t \<times> world" where
  "param_in E par nm ty conv v w =
     (let p0 = \<lparr>param_t.name = nm, type = ty, marshal = None, unmarshal = None, cleanup = (\<lambda>c. c)\<rparr>;
          (ok, w1) = param_verboseCheckNoErr E par (callUnderConstruction w) w
      in if \<not> ok then (p0, w1)
         else (p0\<lparr>marshal := Some (\<lambda>c. conv (c par))\<rparr>, w1\<lparr>cells := (cells w1)(par := v)\<rparr>))"

definition param_out ::
  "env \<Rightarrow> nat \<Rightarrow> string \<Rightarrow> string \<Rightarrow> (gvariant \<Rightarrow> native \<Rightarrow> bool \<times> native) \<Rightarrow> native \<Rightarrow> native
   \<Rightarrow> world \<Rightarrow> param_t \<times> world" where
  "param_out E par nm ty conv dflt v w =
     (let p0 = \<lparr>param_t.name = nm, type = ty, marshal = None, unmarshal = None,
                cleanup = (\<lambda>c. c(par := dflt))\<rparr>;
          (ok, w1) = param_verboseCheckNoErr E par (callUnderConstruction w) w
      in if \<not> ok then (p0, w1)
         else (p0\<lparr>unmarshal := Some (\<lambda>gv c. let (r, x) = conv gv (c par) in (r, c(par := x)))\<rparr>,
               w1\<lparr>cells := (cells w1)(par := v)\<rparr>))"

definition moveIntoCall :: "param_t \<Rightarrow> world \<Rightarrow> world" where
  "moveIntoCall p w =
     (let (call_guard, w1) = get_call (callUnderConstruction w) w
      in case call_guard of
           None \<Rightarrow> w1
         | Some c \<Rightarrow>
             call_guard_dtor (Some c)
               (w1\<lparr>call_obj := (call_obj w1)
                      (c := (call_obj w1 c)\<lparr>params := params (call_obj w1 c) @ [p]\<rparr>)\<rparr>))"

text \<open>The types of parameters and the converters they select.\<close>

datatype gdbus_type =
  TYPE_S | TYPE_I | TYPE_U | TYPE_Y | TYPE_N | TYPE_T | TYPE_B | TYPE_D | TYPE_O | TYPE_V

fun gType :: "gdbus_type \<Rightarrow> string" where
  "gType TYPE_S = ''s''"
| "gType TYPE_I = ''i''"
| "gType TYPE_U = ''u''"
| "gType TYPE_Y = ''y''"
| "gType TYPE_N = ''n''"
| "gType TYPE_T = ''t''"
| "gType TYPE_B = ''b''"
| "gType TYPE_D = ''d''"
| "gType TYPE_O = ''o''"
| "gType TYPE_V = ''v''"

fun default_value :: "gdbus_type \<Rightarrow> native" where
  "default_value TYPE_S = VString []"
| "default_value TYPE_I = VInt32 0"
| "default_value TYPE_U = VUInt32 0"
| "default_value TYPE_Y = VByte 0"
| "default_value TYPE_N = VInt16 0"
| "default_value TYPE_T = VUInt64 0"
| "default_value TYPE_B = VBool False"
| "default_value TYPE_D = VDouble 0"
| "default_value TYPE_O = VString []"
| "default_value TYPE_V = VString []"

text \<open>
  The cell of a parameter always holds a value of its \<^verbatim>\<open>ValueT\<close>; the default
  branches are for the combinations that the type checker excludes.
\<close>

definition marshal_native :: "externals \<Rightarrow> gdbus_type \<Rightarrow> native \<Rightarrow> gvariant option" where
  "marshal_native X gtype x =
     (case gtype of
        TYPE_S \<Rightarrow> (case x of VString s \<Rightarrow> marshal_S X s | _ \<Rightarrow> None)
      | TYPE_I \<Rightarrow> (case x of VInt32 i \<Rightarrow> marshal_I i | _ \<Rightarrow> None)
      | TYPE_U \<Rightarrow> (case x of VUInt32 i \<Rightarrow> marshal_U i | _ \<Rightarrow> None)
      | TYPE_Y \<Rightarrow> (case x of VByte b \<Rightarrow> marshal_Y b | _ \<Rightarrow> None)
      | TYPE_N \<Rightarrow> (case x of VInt16 i \<Rightarrow> marshal_N i | _ \<Rightarrow> None)
      | TYPE_T \<Rightarrow> (case x of VUInt64 b \<Rightarrow> marshal_T b | _ \<Rightarrow> None)
      | TYPE_B \<Rightarrow> (case x of VBool b \<Rightarrow> marshal_B b | _ \<Rightarrow> None)
      | TYPE_D \<Rightarrow> (case x of VDouble d \<Rightarrow> marshal_D d | _ \<Rightarrow> None)
      | TYPE_O \<Rightarrow> (case x of VString s \<Rightarrow> marshal_O X s | _ \<Rightarrow> None)
      | TYPE_V \<Rightarrow> (case x of VString s \<Rightarrow> marshal_V X s | _ \<Rightarrow> None))"

definition unmarshal_native :: "externals \<Rightarrow> gdbus_type \<Rightarrow> gvariant \<Rightarrow> native \<Rightarrow> bool \<times> native" where
  "unmarshal_native X gtype gv x =
     (case gtype of
        TYPE_S \<Rightarrow> (case x of VString s \<Rightarrow> map_prod id VString (unmarshal_S gv s) | _ \<Rightarrow> (False, x))
      | TYPE_I \<Rightarrow> (case x of VInt32 i \<Rightarrow> map_prod id VInt32 (unmarshal_I gv i) | _ \<Rightarrow> (False, x))
      | TYPE_U \<Rightarrow> (case x of VUInt32 i \<Rightarrow> map_prod id VUInt32 (unmarshal_U gv i) | _ \<Rightarrow> (False, x))
      | TYPE_Y \<Rightarrow> (case x of VByte b \<Rightarrow> map_prod id VByte (unmarshal_Y gv b) | _ \<Rightarrow> (False, x))
      | TYPE_N \<Rightarrow> (case x of VInt16 i \<Rightarrow> map_prod id VInt16 (unmarshal_N gv i) | _ \<Rightarrow> (False, x))
      | TYPE_T \<Rightarrow> (case x of VUInt64 b \<Rightarrow> map_prod id VUInt64 (unmarshal_T gv b) | _ \<Rightarrow> (False, x))
      | TYPE_B \<Rightarrow> (case x of VBool b \<Rightarrow> map_prod id VBool (unmarshal_B gv b) | _ \<Rightarrow> (False, x))
      | TYPE_D \<Rightarrow> (case x of VDouble d \<Rightarrow> map_prod id VDouble (unmarshal_D gv d) | _ \<Rightarrow> (False, x))
      | TYPE_O \<Rightarrow> (case x of VString s \<Rightarrow> map_prod id VString (unmarshal_O gv s) | _ \<Rightarrow> (False, x))
      | TYPE_V \<Rightarrow> (case x of VString s \<Rightarrow> map_prod id VString (unmarshal_V X gv s) | _ \<Rightarrow> (False, x)))"

text \<open>
  The constructors of \<^verbatim>\<open>GDBusParam\<close> (\<^verbatim>\<open>PARAM_CTOR\<close>) at the address \<open>this\<close>: the member
  \<^verbatim>\<open>value\<close> is value-initialised, the \<^verbatim>\<open>param_t\<close> is built and moved into the call
  under construction.
\<close>

definition GDBusParam_in ::
  "externals \<Rightarrow> env \<Rightarrow> gdbus_type \<Rightarrow> nat \<Rightarrow> string \<Rightarrow> native \<Rightarrow> world \<Rightarrow> world" where
  "GDBusParam_in X E gtype this param_name v w =
     (let w0 = w\<lparr>cells := (cells w)(this := default_value gtype)\<rparr>;
          (p, w1) = param_in E this param_name (gType gtype) (marshal_native X gtype) v w0
      in moveIntoCall p w1)"

definition GDBusParam_out ::
  "externals \<Rightarrow> env \<Rightarrow> gdbus_type \<Rightarrow> nat \<Rightarrow> string \<Rightarrow> native \<Rightarrow> world \<Rightarrow> world" where
  "GDBusParam_out X E gtype this param_name v w =
     (let w0 = w\<lparr>cells := (cells w)(this := default_value gtype)\<rparr>;
          (p, w1) = param_out E this param_name (gType gtype) (unmarshal_native X gtype)
                      (default_value gtype) v w0
      in moveIntoCall p w1)"

text \<open>\<^verbatim>\<open>call_t::verboseCheckNoErr\<close> logs the invalid names; all four checks are made.\<close>

definition call_verboseCheckNoErr :: "externals \<Rightarrow> call_t \<Rightarrow> world \<Rightarrow> bool \<times> world" where
  "call_verboseCheckNoErr X call w =
     (let (a, w1) = logAssert (g_dbus_is_name X (c_str (obj_desc_t.name (object call))))
                      (ErrInvalid (obj_desc_t.name (object call))) w;
          (b, w2) = logAssert (g_variant_is_object_path X (c_str (path (object call))))
                      (ErrInvalid (path (object call))) w1;
          (c, w3) = logAssert (g_dbus_is_interface_name X (c_str (iface (object call))))
                      (ErrInvalid (iface (object call))) w2;
          (d, w4) = logAssert (g_dbus_is_member_name X (c_str (method_name call)))
                      (ErrInvalid (method_name call)) w3
      in (a \<and> b \<and> c \<and> d, w4))"

definition fromName :: "string \<Rightarrow> obj_desc_t" where
  "fromName nm =
     \<lparr>name = nm,
      path = ''/'' @ map (\<lambda>c. if c = CHR ''.'' then CHR ''/'' else c) nm,
      iface = nm\<rparr>"

text \<open>The constructor \<^verbatim>\<open>GDBusCall(const char *obj_name, const char *method)\<close> and the destructor.\<close>

definition GDBusCall_ctor :: "externals \<Rightarrow> nat \<Rightarrow> string \<Rightarrow> string \<Rightarrow> world \<Rightarrow> world" where
  "GDBusCall_ctor X this obj_name_arg method_arg w =
     (let w0 = w\<lparr>callUnderConstruction := this\<rparr>;
          call = \<lparr>params = [], object = fromName obj_name_arg, method_name = method_arg\<rparr>;
          (good, w1) = call_verboseCheckNoErr X call w0
      in add_call this call w1)"

definition GDBusCall_dtor :: "nat \<Rightarrow> world \<Rightarrow> world" where
  "GDBusCall_dtor this w =
     (let w1 = remove_call this w
      in if callUnderConstruction w1 = this then w1\<lparr>callUnderConstruction := 0\<rparr> else w1)"


section \<open>Properties of the synchronous call\<close>

subsection \<open>Views of the trace\<close>

datatype step = Attempt | Slept nat

fun step_of :: "event \<Rightarrow> step option" where
  "step_of (Sleep ms) = Some (Slept ms)"
| "step_of (ProxyCall pid m t) = Some Attempt"
| "step_of _ = None"

fun reset_of :: "event \<Rightarrow> string option" where
  "reset_of (Reset nm) = Some nm"
| "reset_of _ = None"

text \<open>The attempts and sleeps, and the names of the parameters whose cleanup ran.\<close>

definition steps :: "world \<Rightarrow> step list" where
  "steps w = List.map_filter step_of (trace w)"

definition resets :: "world \<Rightarrow> string list" where
  "resets w = List.map_filter reset_of (trace w)"

definition view :: "(event \<Rightarrow> 'a option) \<Rightarrow> world \<Rightarrow> 'a list" where
  "view pr w = List.map_filter pr (trace w)"

definition quiet :: "(event \<Rightarrow> 'a option) \<Rightarrow> bool" where
  "quiet pr \<longleftrightarrow> (\<forall>m. pr (Log m) = None) \<and> (\<forall>s. pr (ProxyNew s) = None)"

lemma quiet_step_of [simp]: "quiet step_of"
  by (simp add: quiet_def)

lemma quiet_reset_of [simp]: "quiet reset_of"
  by (simp add: quiet_def)

lemma steps_view: "steps w = view step_of w"
  by (simp add: steps_def view_def)

lemma resets_view: "resets w = view reset_of w"
  by (simp add: resets_def view_def)

lemma map_filter_append: "List.map_filter f (xs @ ys) = List.map_filter f xs @ List.map_filter f ys"
  by (simp add: List.map_filter_def)

lemma view_trace_append [simp]:
  "view pr (w\<lparr>trace := trace w @ evs\<rparr>) = view pr w @ List.map_filter pr evs"
  by (simp add: view_def map_filter_append)

lemma view_logAssert [simp]: "quiet pr \<Longrightarrow> view pr (snd (logAssert f m w)) = view pr w"
  by (simp add: logAssert_def quiet_def List.map_filter_simps)

lemma fst_logAssert [simp]: "fst (logAssert f m w) = f"
  by (simp add: logAssert_def)

lemma view_cong_trace: "trace w' = trace w \<Longrightarrow> view pr w' = view pr w"
  by (simp add: view_def)

text \<open>What \<^verbatim>\<open>logAssert\<close> leaves alone.\<close>

lemma logAssert_frame [simp]:
  "cells (snd (logAssert f m w)) = cells w"
  "n_calls (snd (logAssert f m w)) = n_calls w"
  "call_obj (snd (logAssert f m w)) = call_obj w"
  "use_count (snd (logAssert f m w)) = use_count w"
  "calls (snd (logAssert f m w)) = calls w"
  "storage_destroyed (snd (logAssert f m w)) = storage_destroyed w"
  "proxies (snd (logAssert f m w)) = proxies w"
  "n_proxies (snd (logAssert f m w)) = n_proxies w"
  by (simp_all add: logAssert_def)

lemma mainLoopInstance_frame [simp]:
  "trace (snd (mainLoopInstance E w)) = trace w"
  "cells (snd (mainLoopInstance E w)) = cells w"
  "n_calls (snd (mainLoopInstance E w)) = n_calls w"
  "call_obj (snd (mainLoopInstance E w)) = call_obj w"
  "use_count (snd (mainLoopInstance E w)) = use_count w"
  "calls (snd (mainLoopInstance E w)) = calls w"
  "storage_destroyed (snd (mainLoopInstance E w)) = storage_destroyed w"
  by (simp_all add: mainLoopInstance_def Let_def)

lemma view_mainLoopInstance [simp]: "view pr (snd (mainLoopInstance E w)) = view pr w"
  by (simp add: view_def)

lemma proxy_ctor_frame [simp]:
  "cells (snd (proxy_ctor E obj w)) = cells w"
  "n_calls (snd (proxy_ctor E obj w)) = n_calls w"
  "call_obj (snd (proxy_ctor E obj w)) = call_obj w"
  "use_count (snd (proxy_ctor E obj w)) = use_count w"
  "calls (snd (proxy_ctor E obj w)) = calls w"
  "storage_destroyed (snd (proxy_ctor E obj w)) = storage_destroyed w"
  by (simp_all add: proxy_ctor_def split_def Let_def gerror_verboseCheckNoErr_def
      split: option.splits)

lemma view_gerror_verboseCheckNoErr [simp]:
  "quiet pr \<Longrightarrow> view pr (snd (gerror_verboseCheckNoErr err w)) = view pr w"
  by (simp add: gerror_verboseCheckNoErr_def split: option.splits)

lemma view_proxy_ctor [simp]: "quiet pr \<Longrightarrow> view pr (snd (proxy_ctor E obj w)) = view pr w"
  by (simp add: view_def proxy_ctor_def split_def Let_def quiet_def List.map_filter_simps
      map_filter_append gerror_verboseCheckNoErr_def logAssert_def split: option.splits)

lemma instanceFor_frame [simp]:
  "cells (snd (instanceFor E obj pol w)) = cells w"
  "n_calls (snd (instanceFor E obj pol w)) = n_calls w"
  "call_obj (snd (instanceFor E obj pol w)) = call_obj w"
  "use_count (snd (instanceFor E obj pol w)) = use_count w"
  "calls (snd (instanceFor E obj pol w)) = calls w"
  "storage_destroyed (snd (instanceFor E obj pol w)) = storage_destroyed w"
  by (simp_all add: instanceFor_def split_def Let_def)

lemma view_proxies_update [simp]: "view pr (w\<lparr>proxies := x\<rparr>) = view pr w"
  by (simp add: view_def)

lemma view_instanceFor [simp]: "quiet pr \<Longrightarrow> view pr (snd (instanceFor E obj pol w)) = view pr w"
  by (simp add: instanceFor_def split_def Let_def)


subsection \<open>The registry leaves cells and calls alone\<close>

lemma shared_frame [simp]:
  "trace (shared_copy ptr w) = trace w" "trace (shared_release ptr w) = trace w"
  "cells (shared_copy ptr w) = cells w" "cells (shared_release ptr w) = cells w"
  "call_obj (shared_copy ptr w) = call_obj w" "call_obj (shared_release ptr w) = call_obj w"
  "n_calls (shared_copy ptr w) = n_calls w" "n_calls (shared_release ptr w) = n_calls w"
  "storage_destroyed (shared_copy ptr w) = storage_destroyed w"
  "storage_destroyed (shared_release ptr w) = storage_destroyed w"
  by (simp_all add: shared_copy_def shared_release_def split: option.splits)

lemma view_shared [simp]:
  "view pr (shared_copy ptr w) = view pr w" "view pr (shared_release ptr w) = view pr w"
  by (simp_all add: view_def)

lemma verboseCheckOwnership_frame [simp]:
  "cells (snd (verboseCheckOwnership ptr n w)) = cells w"
  "call_obj (snd (verboseCheckOwnership ptr n w)) = call_obj w"
  "n_calls (snd (verboseCheckOwnership ptr n w)) = n_calls w"
  "storage_destroyed (snd (verboseCheckOwnership ptr n w)) = storage_destroyed w"
  by (simp_all add: verboseCheckOwnership_def Let_def)

lemma view_verboseCheckOwnership [simp]:
  "quiet pr \<Longrightarrow> view pr (snd (verboseCheckOwnership ptr n w)) = view pr w"
  by (simp add: verboseCheckOwnership_def Let_def)

lemma call_guard_dtor_frame [simp]:
  "cells (call_guard_dtor ptr w) = cells w"
  "call_obj (call_guard_dtor ptr w) = call_obj w"
  "n_calls (call_guard_dtor ptr w) = n_calls w"
  by (simp_all add: call_guard_dtor_def Let_def)

lemma view_call_guard_dtor [simp]: "quiet pr \<Longrightarrow> view pr (call_guard_dtor ptr w) = view pr w"
  by (simp add: call_guard_dtor_def Let_def)

lemma get_call_frame [simp]:
  "cells (snd (get_call p w)) = cells w"
  "call_obj (snd (get_call p w)) = call_obj w"
  "n_calls (snd (get_call p w)) = n_calls w"
  by (simp_all add: get_call_def verboseStateCheck_def split_def Let_def)

lemma view_calls_update [simp]: "view pr (w\<lparr>calls := x\<rparr>) = view pr w"
  by (simp add: view_def)

lemma view_get_call [simp]: "quiet pr \<Longrightarrow> view pr (snd (get_call p w)) = view pr w"
  by (simp add: get_call_def verboseStateCheck_def split_def Let_def)

lemma get_call_registered:
  assumes "\<not> storage_destroyed w" and "calls w p = Some (Some c)" and "use_count w c = 1"
  shows "fst (get_call p w) = Some c"
  using assms
  by (simp add: get_call_def verboseStateCheck_def logAssert_def Let_def shared_copy_def
      verboseCheckOwnership_def ptr_use_count_def)


subsection \<open>The loops of \<^verbatim>\<open>callSync\<close>\<close>

lemma marshal_inputs_frame:
  "cells (snd (marshal_inputs ps acc w)) = cells w
   \<and> n_calls (snd (marshal_inputs ps acc w)) = n_calls w
   \<and> call_obj (snd (marshal_inputs ps acc w)) = call_obj w
   \<and> calls (snd (marshal_inputs ps acc w)) = calls w
   \<and> use_count (snd (marshal_inputs ps acc w)) = use_count w
   \<and> storage_destroyed (snd (marshal_inputs ps acc w)) = storage_destroyed w"
  by (induction ps arbitrary: acc w)
     (simp_all add: split_def Let_def verboseCheckMarshalled_def verboseNonNull_def
      split: option.splits)

lemma view_marshal_inputs:
  "quiet pr \<Longrightarrow> view pr (snd (marshal_inputs ps acc w)) = view pr w"
  by (induction ps arbitrary: acc w)
     (simp_all add: split_def Let_def verboseCheckMarshalled_def verboseNonNull_def
      split: option.splits)

lemma fst_verbose_checks [simp]:
  "fst (verboseCheckMarshalled p v w) = (v \<noteq> None)"
  "fst (verboseNonNull v w) = (v \<noteq> None)"
  "fst (verboseCheckUnmarshalled p r w) = r"
  by (simp_all add: verboseCheckMarshalled_def verboseNonNull_def verboseCheckUnmarshalled_def)

lemma cells_verbose_checks [simp]:
  "cells (snd (verboseCheckMarshalled p v w)) = cells w"
  "cells (snd (verboseNonNull v w)) = cells w"
  "cells (snd (verboseCheckUnmarshalled p r w)) = cells w"
  by (simp_all add: verboseCheckMarshalled_def verboseNonNull_def verboseCheckUnmarshalled_def)

lemma marshal_inputs_succeeds:
  assumes "\<forall>p \<in> set ps. \<forall>m. marshal p = Some m \<longrightarrow> m (cells w) \<noteq> None"
  shows "fst (marshal_inputs ps acc w) \<noteq> None"
  using assms
proof (induction ps arbitrary: acc w)
  case Nil
  show ?case by simp
next
  case (Cons p ps)
  show ?case
  proof (cases "marshal p")
    case None
    then show ?thesis
      using Cons by simp
  next
    case (Some m)
    then obtain v where v: "m (cells w) = Some v"
      using Cons.prems by auto
    let ?w2 = "snd (verboseNonNull (Some v) (snd (verboseCheckMarshalled p (Some v) w)))"
    have "\<forall>q \<in> set ps. \<forall>m. marshal q = Some m \<longrightarrow> m (cells ?w2) \<noteq> None"
      using Cons.prems by simp
    then have "fst (marshal_inputs ps (acc @ [v]) ?w2) \<noteq> None"
      by (rule Cons.IH)
    then show ?thesis
      using Some v by (simp add: split_def Let_def)
  qed
qed

lemma unmarshal_outputs_frame:
  "n_calls (snd (unmarshal_outputs ps vs w)) = n_calls w
   \<and> call_obj (snd (unmarshal_outputs ps vs w)) = call_obj w
   \<and> calls (snd (unmarshal_outputs ps vs w)) = calls w
   \<and> use_count (snd (unmarshal_outputs ps vs w)) = use_count w
   \<and> storage_destroyed (snd (unmarshal_outputs ps vs w)) = storage_destroyed w"
  by (induction ps arbitrary: vs w)
     (simp_all add: split_def Let_def verboseCheckUnmarshalled_def
      split: option.splits list.splits)

lemma view_cells_update [simp]: "view pr (w\<lparr>cells := x\<rparr>) = view pr w"
  by (simp add: view_def)

lemma view_unmarshal_outputs:
  "quiet pr \<Longrightarrow> view pr (snd (unmarshal_outputs ps vs w)) = view pr w"
  by (induction ps arbitrary: vs w)
     (simp_all add: split_def Let_def verboseCheckUnmarshalled_def
      split: option.splits list.splits)

lemma view_run_cleanup_steps [simp]: "view step_of (run_cleanup p w) = view step_of w"
  by (simp add: run_cleanup_def view_def map_filter_append List.map_filter_simps)

lemma view_fold_run_cleanup_steps [simp]: "view step_of (fold run_cleanup ps w) = view step_of w"
  by (induction ps arbitrary: w) simp_all

lemma view_call_cleanup_guard_dtor_steps [simp]:
  "view step_of (call_cleanup_guard_dtor call r w) = view step_of w"
  by (simp add: call_cleanup_guard_dtor_def)

lemma errType_Some_not_NOERR [simp]: "errType (Some e) \<noteq> NOERR"
  by (auto simp: errType_def errorMap_def split: option.splits if_splits)


lemma errType_None [simp]: "errType None = NOERR"
  by (simp add: errType_def)

lemma NOERR_not_retriable [simp]: "NOERR \<notin> retriableErrors"
  by (simp add: retriableErrors_def)

lemma instanceFor_valid:
  assumes "\<forall>k obj. g_dbus_proxy_new_for_bus_sync E k obj = None"
  shows "proxy (fst (instanceFor E obj pol w)) \<noteq> None"
  using assms
  by (auto simp: instanceFor_def Let_def split_def proxy_move_assign_def proxy_ctor_facts
      split: option.splits)

lemma view_proxy_verboseCheckNoErr [simp]:
  "quiet pr \<Longrightarrow> view pr (snd (proxy_verboseCheckNoErr q w)) = view pr w"
  by (simp add: proxy_verboseCheckNoErr_def)

lemma proxy_verboseCheckNoErr_frame [simp]:
  "n_calls (snd (proxy_verboseCheckNoErr q w)) = n_calls w"
  "cells (snd (proxy_verboseCheckNoErr q w)) = cells w"
  "call_obj (snd (proxy_verboseCheckNoErr q w)) = call_obj w"
  "calls (snd (proxy_verboseCheckNoErr q w)) = calls w"
  "use_count (snd (proxy_verboseCheckNoErr q w)) = use_count w"
  "storage_destroyed (snd (proxy_verboseCheckNoErr q w)) = storage_destroyed w"
  by (simp_all add: proxy_verboseCheckNoErr_def)

text \<open>One iteration of the retry loop that reaches the remote call.\<close>

lemma attempts_loop_iteration:
  assumes "\<forall>k obj. g_dbus_proxy_new_for_bus_sync E k obj = None"
    and "err = None \<or> errType err \<in> retriableErrors"
  shows "\<exists>pid w'.
    attempts_loop E call t (Suc n) None err w
       = (case g_dbus_proxy_call_sync E (n_calls w) pid (method_name call) t of
            Inl e \<Rightarrow> attempts_loop E call t n None (Some e) w'
          | Inr r \<Rightarrow> attempts_loop E call t n (Some r) None w')
    \<and> n_calls w' = Suc (n_calls w)
    \<and> cells w' = cells w
    \<and> view step_of w'
           = view step_of w @ (if errType err \<in> retriableErrors then [Slept WAIT_MS] else [])
             @ [Attempt]"
proof -
  define w0 where
    "w0 = (if errType err \<in> retriableErrors then w\<lparr>trace := trace w @ [Sleep WAIT_MS]\<rparr> else w)"
  define pol where "pol = (if Suc n = MAX_ATTEMPTS then USE_EXISTING else RECREATE)"
  obtain prx w1 where i: "instanceFor E (object call) pol w0 = (prx, w1)"
    by fastforce
  have "proxy prx \<noteq> None"
    using instanceFor_valid [OF assms(1), of "object call" pol w0] i by simp
  then obtain pid where pid: "proxy prx = Some pid"
    by auto
  let ?w2 = "snd (proxy_verboseCheckNoErr prx w1)"
  let ?w3 = "?w2\<lparr>n_calls := Suc (n_calls w),
                  trace := trace ?w2 @ [ProxyCall pid (method_name call) t]\<rparr>"
  have w1: "w1 = snd (instanceFor E (object call) pol w0)"
    using i by simp
  have n1: "n_calls w1 = n_calls w"
    by (simp add: w1 w0_def)
  have go: "errType err \<in> retriableErrors \<or> errType err = NOERR"
    using assms(2) by auto
  have eq: "attempts_loop E call t (Suc n) None err w
       = (case g_dbus_proxy_call_sync E (n_calls w) pid (method_name call) t of
            Inl e \<Rightarrow> attempts_loop E call t n None (Some e) ?w3
          | Inr r \<Rightarrow> attempts_loop E call t n (Some r) None ?w3)"
  proof -
    have "attempts_loop E call t (Suc n) None err w
       = (let (prx', w1') = instanceFor E (object call) pol w0;
              (valid, w2') = proxy_verboseCheckNoErr prx' w1'
          in case proxy prx' of
               None \<Rightarrow> (None, w2')
             | Some pid' \<Rightarrow>
                 (let reply = g_dbus_proxy_call_sync E (n_calls w2') pid' (method_name call) t;
                      w3' = w2'\<lparr>n_calls := Suc (n_calls w2'),
                               trace := trace w2' @ [ProxyCall pid' (method_name call) t]\<rparr>
                  in case reply of
                       Inl e \<Rightarrow> attempts_loop E call t n None (Some e) w3'
                     | Inr r \<Rightarrow> attempts_loop E call t n (Some r) None w3'))"
      using go by (auto simp: w0_def pol_def Let_def)
    also have "\<dots> = (case g_dbus_proxy_call_sync E (n_calls w) pid (method_name call) t of
            Inl e \<Rightarrow> attempts_loop E call t n None (Some e) ?w3
          | Inr r \<Rightarrow> attempts_loop E call t n (Some r) None ?w3)"
      by (simp add: i pid n1 Let_def split_def)
    finally show ?thesis .
  qed
  have n3: "n_calls ?w3 = Suc (n_calls w)"
    by simp
  have c3: "cells ?w3 = cells w"
    by (simp add: w1 w0_def)
  have v2: "view step_of ?w2 = view step_of w0"
    by (simp add: w1)
  have v0: "view step_of w0
      = view step_of w @ (if errType err \<in> retriableErrors then [Slept WAIT_MS] else [])"
    by (simp add: w0_def view_def map_filter_append List.map_filter_simps)
  have v3: "view step_of ?w3 = view step_of ?w2 @ [Attempt]"
    by (simp add: view_def map_filter_append List.map_filter_simps)
  have "view step_of ?w3
      = view step_of w @ (if errType err \<in> retriableErrors then [Slept WAIT_MS] else [])
        @ [Attempt]"
    using v3 v2 v0 by simp
  with eq n3 c3 show ?thesis
    by blast
qed

lemma attempts_loop_all_retriable:
  assumes "\<forall>k obj. g_dbus_proxy_new_for_bus_sync E k obj = None"
    and "\<forall>k pid m t. \<exists>e. g_dbus_proxy_call_sync E k pid m t = Inl e
                          \<and> errType (Some e) \<in> retriableErrors"
    and "errType err \<in> retriableErrors"
  shows "\<exists>e w'. attempts_loop E call t n None err w = (Some (None, Some e), w')
          \<and> view step_of w' = view step_of w @ concat (replicate n [Slept WAIT_MS, Attempt])"
  using assms(3)
proof (induction n arbitrary: err w)
  case 0
  then obtain e where "err = Some e"
    by (cases err) auto
  then show ?case
    by simp
next
  case (Suc n)
  obtain pid w1 where
    eq: "attempts_loop E call t (Suc n) None err w
       = (case g_dbus_proxy_call_sync E (n_calls w) pid (method_name call) t of
            Inl e \<Rightarrow> attempts_loop E call t n None (Some e) w1
          | Inr r \<Rightarrow> attempts_loop E call t n (Some r) None w1)"
    and v1: "view step_of w1
           = view step_of w @ (if errType err \<in> retriableErrors then [Slept WAIT_MS] else [])
             @ [Attempt]"
    using attempts_loop_iteration [OF assms(1), of err call t n w] Suc.prems by blast
  obtain e1 where e1: "g_dbus_proxy_call_sync E (n_calls w) pid (method_name call) t = Inl e1"
    and r1: "errType (Some e1) \<in> retriableErrors"
    using assms(2) by blast
  obtain e w' where "attempts_loop E call t n None (Some e1) w1 = (Some (None, Some e), w')"
    and "view step_of w' = view step_of w1 @ concat (replicate n [Slept WAIT_MS, Attempt])"
    using Suc.IH [OF r1, of w1] by blast
  then show ?case
    using eq e1 v1 Suc.prems by simp
qed


lemma callSync_acquired:
  assumes "fst (get_call this w) = Some c"
  shows "callSync E this w
       = (fst (callSync_body E (call_obj w c) (snd (get_call this w))),
          call_guard_dtor (Some c)
            (call_cleanup_guard_dtor (call_obj w c)
               (fst (callSync_body E (call_obj w c) (snd (get_call this w))))
               (snd (callSync_body E (call_obj w c) (snd (get_call this w))))))"
proof -
  have "get_call this w = (Some c, snd (get_call this w))"
    using assms by (metis prod.collapse)
  then show ?thesis
    using assms by (simp add: callSync_def Let_def split_def)
qed

lemma callSync_body_all_retriable:
  assumes "\<forall>p \<in> set (params call). \<forall>m. marshal p = Some m \<longrightarrow> m (cells w) \<noteq> None"
    and "\<forall>k obj. g_dbus_proxy_new_for_bus_sync E k obj = None"
    and "\<forall>k pid m t. \<exists>e. g_dbus_proxy_call_sync E k pid m t = Inl e
                          \<and> errType (Some e) \<in> retriableErrors"
  shows "\<not> fst (callSync_body E call w)
       \<and> view step_of (snd (callSync_body E call w))
           = view step_of w @ [Attempt, Slept WAIT_MS, Attempt, Slept WAIT_MS, Attempt]"
proof -
  obtain vs w1 where m: "marshal_inputs (params call) [] w = (Some vs, w1)"
    using marshal_inputs_succeeds [OF assms(1), of "[]"]
    by (cases "marshal_inputs (params call) [] w") auto
  have v1: "view step_of w1 = view step_of w"
    using view_marshal_inputs [of step_of "params call" "[]" w] m by simp
  have three: "MAX_ATTEMPTS = Suc (Suc (Suc 0))"
    by (simp add: MAX_ATTEMPTS_def)
  obtain pid w2 where
    eq: "attempts_loop E call (GTuple vs) (Suc (Suc (Suc 0))) None None w1
       = (case g_dbus_proxy_call_sync E (n_calls w1) pid (method_name call) (GTuple vs) of
            Inl e \<Rightarrow> attempts_loop E call (GTuple vs) (Suc (Suc 0)) None (Some e) w2
          | Inr r \<Rightarrow> attempts_loop E call (GTuple vs) (Suc (Suc 0)) (Some r) None w2)"
    and v2': "view step_of w2
        = view step_of w1 @ (if errType None \<in> retriableErrors then [Slept WAIT_MS] else [])
          @ [Attempt]"
    using attempts_loop_iteration [OF assms(2), of None call "GTuple vs" "Suc (Suc 0)" w1]
    by blast
  have v2: "view step_of w2 = view step_of w1 @ [Attempt]"
    using v2' by simp
  obtain e1 where e1: "g_dbus_proxy_call_sync E (n_calls w1) pid (method_name call) (GTuple vs) = Inl e1"
    and r1: "errType (Some e1) \<in> retriableErrors"
    using assms(3) by blast
  obtain e w3 where
    l3: "attempts_loop E call (GTuple vs) (Suc (Suc 0)) None (Some e1) w2 = (Some (None, Some e), w3)"
    and v3: "view step_of w3
              = view step_of w2 @ concat (replicate (Suc (Suc 0)) [Slept WAIT_MS, Attempt])"
    using attempts_loop_all_retriable [OF assms(2,3) r1, of call "GTuple vs" "Suc (Suc 0)" w2]
    by blast
  have loop: "attempts_loop E call (GTuple vs) MAX_ATTEMPTS None None w1 = (Some (None, Some e), w3)"
    using eq e1 l3 by (simp add: three)
  have body: "callSync_body E call w = (False, snd (gerror_verboseCheckNoErr (Some e) w3))"
    by (simp add: callSync_body_def m loop Let_def split_def gerror_verboseCheckNoErr_def)
  show ?thesis
    by (simp add: body v3 v2 v1)
qed

lemma callSync_body_fatal:
  assumes "\<forall>p \<in> set (params call). \<forall>m. marshal p = Some m \<longrightarrow> m (cells w) \<noteq> None"
    and "\<forall>k obj. g_dbus_proxy_new_for_bus_sync E k obj = None"
    and "\<forall>pid m t. \<exists>e. g_dbus_proxy_call_sync E (n_calls w) pid m t = Inl e
                        \<and> errType (Some e) \<notin> retriableErrors"
  shows "\<not> fst (callSync_body E call w)
       \<and> view step_of (snd (callSync_body E call w)) = view step_of w @ [Attempt]"
proof -
  obtain vs w1 where m: "marshal_inputs (params call) [] w = (Some vs, w1)"
    using marshal_inputs_succeeds [OF assms(1), of "[]"]
    by (cases "marshal_inputs (params call) [] w") auto
  have v1: "view step_of w1 = view step_of w"
    using view_marshal_inputs [of step_of "params call" "[]" w] m by simp
  have n1: "n_calls w1 = n_calls w"
    using marshal_inputs_frame [of "params call" "[]" w] m by simp
  have three: "MAX_ATTEMPTS = Suc (Suc (Suc 0))"
    by (simp add: MAX_ATTEMPTS_def)
  obtain pid w2 where
    eq: "attempts_loop E call (GTuple vs) (Suc (Suc (Suc 0))) None None w1
       = (case g_dbus_proxy_call_sync E (n_calls w1) pid (method_name call) (GTuple vs) of
            Inl e \<Rightarrow> attempts_loop E call (GTuple vs) (Suc (Suc 0)) None (Some e) w2
          | Inr r \<Rightarrow> attempts_loop E call (GTuple vs) (Suc (Suc 0)) (Some r) None w2)"
    and v2': "view step_of w2
        = view step_of w1 @ (if errType None \<in> retriableErrors then [Slept WAIT_MS] else [])
          @ [Attempt]"
    using attempts_loop_iteration [OF assms(2), of None call "GTuple vs" "Suc (Suc 0)" w1]
    by blast
  have v2: "view step_of w2 = view step_of w1 @ [Attempt]"
    using v2' by simp
  obtain e1 where e1: "g_dbus_proxy_call_sync E (n_calls w1) pid (method_name call) (GTuple vs) = Inl e1"
    and r1: "errType (Some e1) \<notin> retriableErrors"
    using assms(3) n1 by metis
  have loop: "attempts_loop E call (GTuple vs) MAX_ATTEMPTS None None w1 = (Some (None, Some e1), w2)"
    using eq e1 r1 by (simp add: three)
  have body: "callSync_body E call w = (False, snd (gerror_verboseCheckNoErr (Some e1) w2))"
    by (simp add: callSync_body_def m loop Let_def split_def gerror_verboseCheckNoErr_def)
  show ?thesis
    by (simp add: body v2 v1)
qed

text \<open>
  C1. Take a call that is registered and not in use elsewhere, whose inputs all marshal,
  on a bus where every creation of a proxy succeeds. If every remote call fails with an
  error that is classified as retriable (\<^verbatim>\<open>SERVICE_UNKNOWN\<close> or \<^verbatim>\<open>SERVER_DISCONNECT\<close>),
  \<^verbatim>\<open>callSync\<close> returns false after exactly three attempts, with a sleep of 250 ms before
  the second and before the third. If the first remote call fails with any other error,
  \<^verbatim>\<open>callSync\<close> returns false after that single attempt, without sleeping.
\<close>

theorem callSync_retry_policy:
  assumes "\<not> storage_destroyed w" and "calls w this = Some (Some c)" and "use_count w c = 1"
    and "\<forall>p \<in> set (params (call_obj w c)). \<forall>m. marshal p = Some m \<longrightarrow> m (cells w) \<noteq> None"
    and "\<forall>k obj. g_dbus_proxy_new_for_bus_sync E k obj = None"
  shows "((\<forall>k pid m t. \<exists>e. g_dbus_proxy_call_sync E k pid m t = Inl e
                            \<and> errType (Some e) \<in> retriableErrors) \<longrightarrow>
            \<not> fst (callSync E this w)
            \<and> steps (snd (callSync E this w))
                = steps w @ [Attempt, Slept 250, Attempt, Slept 250, Attempt])
       \<and> ((\<forall>pid m t. \<exists>e. g_dbus_proxy_call_sync E (n_calls w) pid m t = Inl e
                            \<and> errType (Some e) \<notin> retriableErrors) \<longrightarrow>
            \<not> fst (callSync E this w)
            \<and> steps (snd (callSync E this w)) = steps w @ [Attempt])"
proof -
  let ?w1 = "snd (get_call this w)"
  let ?call = "call_obj w c"
  have acq: "fst (get_call this w) = Some c"
    by (rule get_call_registered [OF assms(1,2,3)])
  have marsh: "\<forall>p \<in> set (params ?call). \<forall>m. marshal p = Some m \<longrightarrow> m (cells ?w1) \<noteq> None"
    using assms(4) by simp
  have fin: "fst (callSync E this w) = fst (callSync_body E ?call ?w1)"
    "steps (snd (callSync E this w)) = view step_of (snd (callSync_body E ?call ?w1))"
    by (simp_all add: callSync_acquired [OF acq] steps_view)
  have start: "view step_of ?w1 = steps w"
    by (simp add: steps_view)
  have a: "\<not> fst (callSync E this w)
      \<and> steps (snd (callSync E this w))
          = steps w @ [Attempt, Slept 250, Attempt, Slept 250, Attempt]"
    if "\<forall>k pid m t. \<exists>e. g_dbus_proxy_call_sync E k pid m t = Inl e
                          \<and> errType (Some e) \<in> retriableErrors"
    using callSync_body_all_retriable [OF marsh assms(5) that] fin start
    by (simp add: WAIT_MS_def)
  have b: "\<not> fst (callSync E this w) \<and> steps (snd (callSync E this w)) = steps w @ [Attempt]"
    if "\<forall>pid m t. \<exists>e. g_dbus_proxy_call_sync E (n_calls w) pid m t = Inl e
                        \<and> errType (Some e) \<notin> retriableErrors"
  proof -
    have "\<forall>pid m t. \<exists>e. g_dbus_proxy_call_sync E (n_calls ?w1) pid m t = Inl e
                        \<and> errType (Some e) \<notin> retriableErrors"
      using that by simp
    from callSync_body_fatal [OF marsh assms(5) this] fin start show ?thesis
      by simp
  qed
  show ?thesis
    using a b by blast
qed


subsection \<open>Reset of the output parameters\<close>

lemma view_record_step [simp]:
  "view pr (w\<lparr>n_calls := a, trace := trace w @ evs\<rparr>) = view pr w @ List.map_filter pr evs"
  by (simp add: view_def map_filter_append)

text \<open>The part of the state that the registry and the cleanup depend on.\<close>

definition kept :: "world \<Rightarrow> cells \<times> (nat \<Rightarrow> call_t) \<times> (nat \<rightharpoonup> nat option) \<times> (nat \<Rightarrow> nat) \<times> bool \<times> string list" where
  "kept w = (cells w, call_obj w, calls w, use_count w, storage_destroyed w, view reset_of w)"

lemma attempts_loop_frame: "kept (snd (attempts_loop E call t n out err w)) = kept w"
proof (induction n arbitrary: out err w)
  case 0
  show ?case by simp
next
  case (Suc n)
  define w0 where
    "w0 = (if errType err \<in> retriableErrors then w\<lparr>trace := trace w @ [Sleep WAIT_MS]\<rparr> else w)"
  define pol where "pol = (if Suc n = MAX_ATTEMPTS then USE_EXISTING else RECREATE)"
  define prx where "prx = fst (instanceFor E (object call) pol w0)"
  define w2 where
    "w2 = snd (proxy_verboseCheckNoErr prx (snd (instanceFor E (object call) pol w0)))"
  have f0: "kept w0 = kept w"
    by (simp add: kept_def w0_def view_def map_filter_append List.map_filter_simps)
  have f2: "kept w2 = kept w"
    using f0 by (simp add: kept_def w2_def)
  have f3: "kept (w2\<lparr>n_calls := a, trace := trace w2 @ [ProxyCall pid m t']\<rparr>) = kept w"
    for a pid m t'
    using f2 by (simp add: kept_def List.map_filter_simps)
  show ?case
    by (simp add: Let_def split_def w0_def [symmetric] pol_def [symmetric] prx_def [symmetric]
        w2_def [symmetric] f2 f3 Suc.IH split: option.splits sum.splits)
qed

lemma kept_logAssert [simp]: "kept (snd (logAssert f m w)) = kept w"
  by (simp add: kept_def)

lemma marshal_inputs_kept: "kept (snd (marshal_inputs ps acc w)) = kept w"
  using marshal_inputs_frame [of ps acc w] view_marshal_inputs [of reset_of ps acc w]
  by (simp add: kept_def)

lemma callSync_body_cases:
  "(\<exists>w'. callSync_body E call w = (False, w') \<and> kept w' = kept w)
   \<or> (\<exists>t w'. callSync_body E call w = unmarshal_outputs (params call) (from_tuple t) w'
              \<and> kept w' = kept w)"
proof -
  obtain r1 w1 where m: "marshal_inputs (params call) [] w = (r1, w1)"
    by fastforce
  have f1: "kept w1 = kept w"
    using marshal_inputs_kept [of "params call" "[]" w] m by simp
  show ?thesis
  proof (cases r1)
    case None
    then show ?thesis
      by (simp add: callSync_body_def m f1)
  next
    case (Some vs)
    obtain r2 w2 where l: "attempts_loop E call (GTuple vs) MAX_ATTEMPTS None None w1 = (r2, w2)"
      by fastforce
    have f2: "kept w2 = kept w"
      using attempts_loop_frame [of E call "GTuple vs" MAX_ATTEMPTS None None w1] l f1
      by simp
    show ?thesis
    proof (cases r2)
      case None
      then show ?thesis
        by (simp add: callSync_body_def m Some l f2)
    next
      case inner: (Some oe)
      obtain out_tuple err where oe: "oe = (out_tuple, err)"
        by (cases oe)
      let ?w3 = "snd (gerror_verboseCheckNoErr err w2)"
      have f3: "kept ?w3 = kept w"
        by (simp add: f2 gerror_verboseCheckNoErr_def split: option.splits)
      have f4: "kept (snd (verboseNonNull ot ?w3)) = kept w" for ot :: "gvariant option"
        by (simp add: f3 verboseNonNull_def)
      show ?thesis
        using f3 f4
        by (auto simp: callSync_body_def m Some l inner oe Let_def split_def
            split: option.splits)
    qed
  qed
qed

lemma unmarshal_outputs_kept:
  "call_obj (snd (unmarshal_outputs ps vs w)) = call_obj w
   \<and> calls (snd (unmarshal_outputs ps vs w)) = calls w
   \<and> use_count (snd (unmarshal_outputs ps vs w)) = use_count w
   \<and> storage_destroyed (snd (unmarshal_outputs ps vs w)) = storage_destroyed w
   \<and> view reset_of (snd (unmarshal_outputs ps vs w)) = view reset_of w"
  using unmarshal_outputs_frame [of ps vs w] view_unmarshal_outputs [of reset_of ps vs w]
  by simp

lemma callSync_body_frame:
  "call_obj (snd (callSync_body E call w)) = call_obj w
   \<and> calls (snd (callSync_body E call w)) = calls w
   \<and> use_count (snd (callSync_body E call w)) = use_count w
   \<and> storage_destroyed (snd (callSync_body E call w)) = storage_destroyed w
   \<and> view reset_of (snd (callSync_body E call w)) = view reset_of w"
proof -
  consider w' where "callSync_body E call w = (False, w')" "kept w' = kept w"
    | t w' where "callSync_body E call w = unmarshal_outputs (params call) (from_tuple t) w'"
        "kept w' = kept w"
    using callSync_body_cases [of E call w] by blast
  then show ?thesis
  proof cases
    case 1
    then show ?thesis
      by (simp add: kept_def)
  next
    case 2
    then show ?thesis
      using unmarshal_outputs_kept [of "params call" "from_tuple t" w']
      by (simp add: kept_def)
  qed
qed

lemma cells_fold_run_cleanup:
  "cells (fold run_cleanup ps w) = fold (\<lambda>f c. f c) (map cleanup ps) (cells w)"
  by (induction ps arbitrary: w) (simp_all add: run_cleanup_def)

lemma view_fold_run_cleanup_resets:
  "view reset_of (fold run_cleanup ps w) = view reset_of w @ map param_t.name ps"
  by (induction ps arbitrary: w)
     (simp_all add: run_cleanup_def view_def map_filter_append List.map_filter_simps)

text \<open>
  How a parameter was bound: an input parameter's cleanup does nothing; the cleanup of
  an output parameter of a given type, which is \<^verbatim>\<open>par->value = {}\<close>, stores the
  default value of that type in the parameter's cell.
\<close>

datatype binding = In_binding | Out_binding nat gdbus_type

fun binding_cleanup :: "binding \<Rightarrow> cells \<Rightarrow> cells" where
  "binding_cleanup In_binding = (\<lambda>c. c)"
| "binding_cleanup (Out_binding a gtype) = (\<lambda>c. c(a := default_value gtype))"

fun out_cells :: "binding list \<Rightarrow> (nat \<times> gdbus_type) list" where
  "out_cells [] = []"
| "out_cells (In_binding # bs) = out_cells bs"
| "out_cells (Out_binding a gtype # bs) = (a, gtype) # out_cells bs"

lemma cleanup_param_in: "cleanup (fst (param_in E par nm ty conv v w)) = binding_cleanup In_binding"
  by (simp add: param_in_def Let_def split_def)

lemma cleanup_param_out_raw:
  "cleanup (fst (param_out E par nm ty conv dflt v w)) = (\<lambda>c. c(par := dflt))"
  by (simp add: param_out_def Let_def split_def)

lemma cleanup_param_out:
  "cleanup (fst (param_out E par nm ty conv (default_value gtype) v w))
     = binding_cleanup (Out_binding par gtype)"
  by (simp add: cleanup_param_out_raw)

lemma fold_binding_cleanup_other:
  "a \<notin> fst ` set (out_cells bs) \<Longrightarrow> fold (\<lambda>f c. f c) (map binding_cleanup bs) c a = c a"
  by (induction bs arbitrary: c rule: out_cells.induct) auto

lemma fold_binding_cleanup_out:
  "distinct (map fst (out_cells bs)) \<Longrightarrow> (a, gtype) \<in> set (out_cells bs) \<Longrightarrow>
   fold (\<lambda>f c. f c) (map binding_cleanup bs) c a = default_value gtype"
proof (induction bs arbitrary: c rule: out_cells.induct)
  case 1
  then show ?case by simp
next
  case (2 bs)
  then show ?case by simp
next
  case (3 a' gtype' bs)
  show ?case
  proof (cases "(a, gtype) \<in> set (out_cells bs)")
    case True
    then show ?thesis
      using 3 by simp
  next
    case False
    then have "a = a'" "gtype = gtype'"
      using "3.prems" by auto
    moreover have "a' \<notin> fst ` set (out_cells bs)"
      using "3.prems" by auto
    ultimately show ?thesis
      by (simp add: fold_binding_cleanup_other)
  qed
qed

lemma callSync_without_descriptor:
  assumes "fst (get_call this w) = None"
  shows "callSync E this w = (False, snd (get_call this w))"
  using assms by (simp add: callSync_def split_def Let_def)

text \<open>
  C4 (as the code has it). When the registry gives \<^verbatim>\<open>callSync\<close> no descriptor,
  \<^verbatim>\<open>callSync\<close> returns false, no cleanup closure runs and every cell is left as it
  was. When \<^verbatim>\<open>callSync\<close> has acquired the descriptor, let \<open>bs\<close> say how its parameters
  are bound, the output parameters being distinct objects. If \<^verbatim>\<open>callSync\<close> then returns
  false, whatever the failure after the acquisition was, the cleanup closure of every
  parameter has run, once and in order, and every output parameter's cell holds the
  default value of its type (\<open>default_value\<close>: the empty string, zero, false). If it
  returns true, no cleanup closure has run.
\<close>

theorem callSync_resets_outputs_once_acquired:
  "(fst (get_call this w) = None \<longrightarrow>
      \<not> fst (callSync E this w)
      \<and> cells (snd (callSync E this w)) = cells w
      \<and> resets (snd (callSync E this w)) = resets w)
   \<and> (fst (get_call this w) = Some c
       \<and> map cleanup (params (call_obj w c)) = map binding_cleanup bs
       \<and> distinct (map fst (out_cells bs)) \<longrightarrow>
         (\<not> fst (callSync E this w) \<longrightarrow>
            (\<forall>(a, gtype) \<in> set (out_cells bs).
               cells (snd (callSync E this w)) a = default_value gtype)
            \<and> resets (snd (callSync E this w))
                = resets w @ map param_t.name (params (call_obj w c)))
         \<and> (fst (callSync E this w) \<longrightarrow> resets (snd (callSync E this w)) = resets w))"
proof -
  have none: "\<not> fst (callSync E this w)
      \<and> cells (snd (callSync E this w)) = cells w
      \<and> resets (snd (callSync E this w)) = resets w"
    if "fst (get_call this w) = None"
    by (simp add: callSync_without_descriptor [OF that] resets_view)
  have some: "(\<not> fst (callSync E this w) \<longrightarrow>
            (\<forall>(a, gtype) \<in> set (out_cells bs).
               cells (snd (callSync E this w)) a = default_value gtype)
            \<and> resets (snd (callSync E this w))
                = resets w @ map param_t.name (params (call_obj w c)))
         \<and> (fst (callSync E this w) \<longrightarrow> resets (snd (callSync E this w)) = resets w)"
    if acq: "fst (get_call this w) = Some c"
      and bound: "map cleanup (params (call_obj w c)) = map binding_cleanup bs"
      and dist: "distinct (map fst (out_cells bs))"
  proof -
    let ?call = "call_obj w c"
    let ?b = "callSync_body E ?call (snd (get_call this w))"
    have eq: "callSync E this w
        = (fst ?b, call_guard_dtor (Some c) (call_cleanup_guard_dtor ?call (fst ?b) (snd ?b)))"
      by (rule callSync_acquired [OF acq])
    have rb: "view reset_of (snd ?b) = resets w"
      using callSync_body_frame [of E ?call "snd (get_call this w)"] by (simp add: resets_view)
    have ok: "resets (snd (callSync E this w)) = resets w" if "fst (callSync E this w)"
      using that rb by (simp add: eq resets_view call_cleanup_guard_dtor_def)
    have ko: "(\<forall>(a, gtype) \<in> set (out_cells bs).
                 cells (snd (callSync E this w)) a = default_value gtype)
        \<and> resets (snd (callSync E this w)) = resets w @ map param_t.name (params ?call)"
      if "\<not> fst (callSync E this w)"
    proof -
      have f: "\<not> fst ?b"
        using that by (simp add: eq)
      have c: "cells (snd (callSync E this w))
          = fold (\<lambda>f c. f c) (map binding_cleanup bs) (cells (snd ?b))"
        using f bound by (simp add: eq call_cleanup_guard_dtor_def cells_fold_run_cleanup)
      have r: "resets (snd (callSync E this w)) = resets w @ map param_t.name (params ?call)"
        using f rb
        by (simp add: eq resets_view call_cleanup_guard_dtor_def view_fold_run_cleanup_resets)
      show ?thesis
        using r by (auto simp: c fold_binding_cleanup_out [OF dist])
    qed
    show ?thesis
      using ok ko by blast
  qed
  show ?thesis
    using none some by blast
qed


subsection \<open>The outcome of a call that gets a reply\<close>

text \<open>What the last loop of \<^verbatim>\<open>callSync\<close> does to the cells, without the log.\<close>

fun unmarshal_cells :: "param_t list \<Rightarrow> gvariant list \<Rightarrow> cells \<Rightarrow> bool \<times> cells" where
  "unmarshal_cells [] out_variants c = (True, c)"
| "unmarshal_cells (out_param # rest) out_variants c =
     (case unmarshal out_param of
        None \<Rightarrow> unmarshal_cells rest out_variants c
      | Some u \<Rightarrow>
          (case out_variants of
             [] \<Rightarrow> (False, c)
           | v # vs \<Rightarrow>
               (let (r, c') = u v c
                in if \<not> r then (False, c') else unmarshal_cells rest vs c')))"

lemma unmarshal_outputs_cells:
  "fst (unmarshal_outputs ps vs w) = fst (unmarshal_cells ps vs (cells w))
   \<and> cells (snd (unmarshal_outputs ps vs w)) = snd (unmarshal_cells ps vs (cells w))"
  by (induction ps arbitrary: vs w)
     (simp_all add: split_def Let_def split: option.splits list.splits)

lemma attempts_loop_has_reply [simp]:
  "attempts_loop E call t n (Some r) err w = (Some (Some r, err), w)"
  by (cases n) simp_all

lemma callSync_body_first_reply:
  assumes "\<forall>p \<in> set (params call). \<forall>m. marshal p = Some m \<longrightarrow> m (cells w) \<noteq> None"
    and "\<forall>k obj. g_dbus_proxy_new_for_bus_sync E k obj = None"
    and "\<forall>pid m t. g_dbus_proxy_call_sync E (n_calls w) pid m t = Inr r"
  shows "fst (callSync_body E call w) = fst (unmarshal_cells (params call) (from_tuple r) (cells w))
       \<and> cells (snd (callSync_body E call w))
           = snd (unmarshal_cells (params call) (from_tuple r) (cells w))"
proof -
  obtain vs w1 where m: "marshal_inputs (params call) [] w = (Some vs, w1)"
    using marshal_inputs_succeeds [OF assms(1), of "[]"]
    by (cases "marshal_inputs (params call) [] w") auto
  have n1: "n_calls w1 = n_calls w" and c1: "cells w1 = cells w"
    using marshal_inputs_frame [of "params call" "[]" w] m by simp_all
  have three: "MAX_ATTEMPTS = Suc (Suc (Suc 0))"
    by (simp add: MAX_ATTEMPTS_def)
  obtain pid w2 where
    eq: "attempts_loop E call (GTuple vs) (Suc (Suc (Suc 0))) None None w1
       = (case g_dbus_proxy_call_sync E (n_calls w1) pid (method_name call) (GTuple vs) of
            Inl e \<Rightarrow> attempts_loop E call (GTuple vs) (Suc (Suc 0)) None (Some e) w2
          | Inr r \<Rightarrow> attempts_loop E call (GTuple vs) (Suc (Suc 0)) (Some r) None w2)"
    and c2: "cells w2 = cells w1"
    using attempts_loop_iteration [OF assms(2), of None call "GTuple vs" "Suc (Suc 0)" w1]
    by blast
  have loop: "attempts_loop E call (GTuple vs) MAX_ATTEMPTS None None w1 = (Some (Some r, None), w2)"
    using eq assms(3) n1 by (simp add: three)
  have body: "callSync_body E call w = unmarshal_outputs (params call) (from_tuple r) w2"
    by (simp add: callSync_body_def m loop Let_def split_def gerror_verboseCheckNoErr_def
        verboseNonNull_def logAssert_def)
  show ?thesis
    using unmarshal_outputs_cells [of "params call" "from_tuple r" w2]
    by (simp add: body c2 c1)
qed

lemma fold_run_cleanup_frame [simp]:
  "call_obj (fold run_cleanup ps w) = call_obj w"
  "calls (fold run_cleanup ps w) = calls w"
  "use_count (fold run_cleanup ps w) = use_count w"
  "storage_destroyed (fold run_cleanup ps w) = storage_destroyed w"
  by (induction ps arbitrary: w) (simp_all add: run_cleanup_def)

text \<open>
  A call on a descriptor that is registered and not in use elsewhere leaves the
  registry as it found it; its result and, on success, the cells are those of the reply.
\<close>

lemma callSync_registry:
  assumes "\<not> storage_destroyed w" and "calls w this = Some (Some c)" and "use_count w c = 1"
  shows "\<not> storage_destroyed (snd (callSync E this w))"
    and "calls (snd (callSync E this w)) = calls w"
    and "use_count (snd (callSync E this w)) c = 1"
    and "call_obj (snd (callSync E this w)) = call_obj w"
proof -
  let ?w1 = "snd (get_call this w)"
  let ?b = "callSync_body E (call_obj w c) ?w1"
  let ?w3 = "call_cleanup_guard_dtor (call_obj w c) (fst ?b) (snd ?b)"
  have acq: "fst (get_call this w) = Some c"
    by (rule get_call_registered [OF assms])
  have w1: "\<not> storage_destroyed ?w1" "calls ?w1 = calls w"
    "use_count ?w1 = (use_count w)(c := Suc (Suc 0))"
    using assms
    by (simp_all add: get_call_def verboseStateCheck_def verboseCheckOwnership_def
        ptr_use_count_def shared_copy_def logAssert_def Let_def fun_upd_idem)
  have w3: "\<not> storage_destroyed ?w3" "calls ?w3 = calls w"
    "use_count ?w3 = (use_count w)(c := Suc (Suc 0))" "call_obj ?w3 = call_obj w"
    using callSync_body_frame [of E "call_obj w c" ?w1] w1
    by (simp_all add: call_cleanup_guard_dtor_def)
  have eq: "snd (callSync E this w) = call_guard_dtor (Some c) ?w3"
    by (simp add: callSync_acquired [OF acq])
  show "\<not> storage_destroyed (snd (callSync E this w))"
    "calls (snd (callSync E this w)) = calls w"
    "use_count (snd (callSync E this w)) c = 1"
    "call_obj (snd (callSync E this w)) = call_obj w"
    using w3 assms(2)
    by (simp_all add: eq call_guard_dtor_def verboseCheckOwnership_def ptr_use_count_def
        logAssert_def shared_release_def Let_def)
qed

lemma callSync_reply:
  assumes "\<not> storage_destroyed w" and "calls w this = Some (Some c)" and "use_count w c = 1"
    and "\<forall>p \<in> set (params (call_obj w c)). \<forall>m. marshal p = Some m \<longrightarrow> m (cells w) \<noteq> None"
    and "\<forall>k obj. g_dbus_proxy_new_for_bus_sync E k obj = None"
    and "\<forall>pid m t. g_dbus_proxy_call_sync E (n_calls w) pid m t = Inr r"
  shows "fst (callSync E this w)
           = fst (unmarshal_cells (params (call_obj w c)) (from_tuple r) (cells w))"
    and "fst (callSync E this w) \<Longrightarrow>
         cells (snd (callSync E this w))
           = snd (unmarshal_cells (params (call_obj w c)) (from_tuple r) (cells w))"
proof -
  let ?w1 = "snd (get_call this w)"
  have acq: "fst (get_call this w) = Some c"
    by (rule get_call_registered [OF assms(1,2,3)])
  have marsh: "\<forall>p \<in> set (params (call_obj w c)). \<forall>m. marshal p = Some m \<longrightarrow> m (cells ?w1) \<noteq> None"
    using assms(4) by simp
  have reply: "\<forall>pid m t. g_dbus_proxy_call_sync E (n_calls ?w1) pid m t = Inr r"
    using assms(6) by simp
  note b = callSync_body_first_reply [OF marsh assms(5) reply]
  show "fst (callSync E this w)
           = fst (unmarshal_cells (params (call_obj w c)) (from_tuple r) (cells w))"
    using b by (simp add: callSync_acquired [OF acq])
  show "cells (snd (callSync E this w))
           = snd (unmarshal_cells (params (call_obj w c)) (from_tuple r) (cells w))"
    if "fst (callSync E this w)"
    using b that by (simp add: callSync_acquired [OF acq] call_cleanup_guard_dtor_def)
qed


section \<open>A concrete call\<close>

text \<open>The state of a process that has not used the client yet.\<close>

definition world0 :: world where
  "world0 =
     \<lparr>statics_initialized = False, context_ptr = False, loop_ptr = False, is_running = False,
      clock = 0, n_iterations = 0,
      proxies = Map.empty, n_proxies = 0,
      calls = Map.empty,
      call_obj = (\<lambda>_. \<lparr>params = [], object = \<lparr>name = [], path = [], iface = []\<rparr>, method_name = []\<rparr>),
      use_count = (\<lambda>_. 0), n_shared = 0, storage_destroyed = False,
      callUnderConstruction = 0,
      cells = (\<lambda>_. VInt32 0), n_calls = 0, trace = []\<rparr>"

text \<open>
  Environments: a bus where proxies are always created and the remote method replies
  with a string and an int32; the same bus with a service that is unknown, that denies
  access, or that replies with two strings.
\<close>

definition env_ok :: env where
  "env_ok =
     \<lparr>g_main_context_new_ok = True,
      g_dbus_proxy_new_for_bus_sync = (\<lambda>k obj. None),
      g_dbus_proxy_call_sync = (\<lambda>k pid m t. Inr (GTuple [GString ''hello'', GInt32 7])),
      iteration_msec = (\<lambda>k. 40),
      iteration_quits = (\<lambda>k. False),
      sizeof_GDBusCall = 8\<rparr>"

definition env_unknown :: env where
  "env_unknown = env_ok\<lparr>g_dbus_proxy_call_sync :=
     (\<lambda>k pid m t. Inl \<lparr>domain = G_DBUS_ERROR, code = G_DBUS_ERROR_SERVICE_UNKNOWN\<rparr>)\<rparr>"

definition env_denied :: env where
  "env_denied = env_ok\<lparr>g_dbus_proxy_call_sync :=
     (\<lambda>k pid m t. Inl \<lparr>domain = G_DBUS_ERROR, code = G_DBUS_ERROR_ACCESS_DENIED\<rparr>)\<rparr>"

definition env_two_strings :: env where
  "env_two_strings = env_ok\<lparr>g_dbus_proxy_call_sync :=
     (\<lambda>k pid m t. Inr (GTuple [GString ''fresh'', GString ''oops'']))\<rparr>"

text \<open>
  A call object at address 100 with an input parameter \<^verbatim>\<open>resourceType\<close> (type \<^verbatim>\<open>s\<close>) at
  104 and two output parameters, \<^verbatim>\<open>text\<close> (type \<^verbatim>\<open>s\<close>) at 108 and \<^verbatim>\<open>status\<close> (type
  \<^verbatim>\<open>i\<close>) at 116, constructed in the fresh state. The output parameters are given
  the initial values \<^verbatim>\<open>"initial"\<close> and 5.
\<close>

definition the_call :: world where
  "the_call =
     GDBusParam_out ext0 env_ok TYPE_I 116 ''status'' (VInt32 5)
       (GDBusParam_out ext0 env_ok TYPE_S 108 ''text'' (VString ''initial'')
          (GDBusParam_in ext0 env_ok TYPE_S 104 ''resourceType'' (VString ''dhcpv4'')
             (GDBusCall_ctor ext0 100 ''com.example.svc'' ''Get'' world0)))"

lemmas ctor_defs = GDBusParam_out_def GDBusParam_in_def GDBusCall_ctor_def world0_def ext0_def
  env_ok_def param_in_def param_out_def moveIntoCall_def get_call_def add_call_def
  call_verboseCheckNoErr_def param_verboseCheckNoErr_def verboseStateCheck_def
  verboseCheckOwnership_def ptr_use_count_def call_guard_dtor_def shared_copy_def
  shared_release_def logAssert_def fromName_def c_str_def MAX_CALL_BODY_SIZE_def Let_def

lemma the_call_registry:
  "\<not> storage_destroyed the_call" "calls the_call 100 = Some (Some (Suc 0))"
  "use_count the_call (Suc 0) = 1" "trace the_call = []"
  by (simp_all add: the_call_def ctor_defs)

lemma the_call_params:
  "params (call_obj the_call (Suc 0)) =
     [fst (param_in env_ok 104 ''resourceType'' ''s'' (marshal_native ext0 TYPE_S) (VString ''dhcpv4'')
             (world0\<lparr>callUnderConstruction := 100\<rparr>)),
      fst (param_out env_ok 108 ''text'' ''s'' (unmarshal_native ext0 TYPE_S) (VString []) (VString ''initial'')
             (world0\<lparr>callUnderConstruction := 100\<rparr>)),
      fst (param_out env_ok 116 ''status'' ''i'' (unmarshal_native ext0 TYPE_I) (VInt32 0) (VInt32 5)
             (world0\<lparr>callUnderConstruction := 100\<rparr>))]"
  by (simp add: the_call_def ctor_defs)


lemma the_call_cells:
  "cells the_call 104 = VString ''dhcpv4''" "cells the_call 108 = VString ''initial''"
  "cells the_call 116 = VInt32 5"
  by (simp_all add: the_call_def ctor_defs)

lemmas env_defs = env_ok_def env_unknown_def env_denied_def env_two_strings_def

lemmas errType_defs = errType_def errorMap_def retriableErrors_def
  G_DBUS_ERROR_SERVICE_UNKNOWN_def G_DBUS_ERROR_ACCESS_DENIED_def G_DBUS_ERROR_DISCONNECTED_def

lemma the_call_marshals:
  "\<forall>p \<in> set (params (call_obj the_call (Suc 0))). \<forall>m. marshal p = Some m \<longrightarrow> m (cells the_call) \<noteq> None"
  using the_call_params the_call_cells
  by (simp add: param_in_def param_out_def
      param_verboseCheckNoErr_def logAssert_def Let_def world0_def env_ok_def
      MAX_CALL_BODY_SIZE_def marshal_native_def marshal_S_def g_variant_new_string_def ext0_def)

theorem callSync_retry_policy_witness:
  "\<not> fst (callSync env_unknown 100 the_call)
   \<and> steps (snd (callSync env_unknown 100 the_call))
       = [Attempt, Slept 250, Attempt, Slept 250, Attempt]
   \<and> \<not> fst (callSync env_denied 100 the_call)
   \<and> steps (snd (callSync env_denied 100 the_call)) = [Attempt]"
proof -
  have s0: "steps the_call = []"
    by (simp add: steps_def the_call_registry List.map_filter_simps)
  have u: "\<forall>k obj. g_dbus_proxy_new_for_bus_sync env_unknown k obj = None"
    and d: "\<forall>k obj. g_dbus_proxy_new_for_bus_sync env_denied k obj = None"
    by (simp_all add: env_defs)
  have ru: "\<forall>k pid m t. \<exists>e. g_dbus_proxy_call_sync env_unknown k pid m t = Inl e
              \<and> errType (Some e) \<in> retriableErrors"
    by (simp add: env_defs errType_defs)
  have fd: "\<forall>pid m t. \<exists>e. g_dbus_proxy_call_sync env_denied (n_calls the_call) pid m t = Inl e
              \<and> errType (Some e) \<notin> retriableErrors"
    by (simp add: env_defs errType_defs)
  show ?thesis
    using callSync_retry_policy [OF the_call_registry(1,2,3) the_call_marshals u]
      callSync_retry_policy [OF the_call_registry(1,2,3) the_call_marshals d] ru fd s0
    by simp
qed

theorem get_returns_empty_guard_on_ownership_violation_witness:
  "fst (get_call 100 the_call) = Some 1
   \<and> fst (get_call 100 (snd (get_call 100 the_call))) = None
   \<and> trace (snd (get_call 100 (snd (get_call 100 the_call))))
       = [Log (ErrOwners 2 3), Log (ErrOwners 2 3)]
   \<and> callSync env_ok 100 (snd (get_call 100 the_call))
       = (False, snd (get_call 100 (snd (get_call 100 the_call))))"
proof -
  let ?w = "snd (get_call 100 the_call)"
  have a: "fst (get_call 100 the_call) = Some (Suc 0)"
    by (rule get_call_registered [OF the_call_registry(1,2,3)])
  have w: "\<not> storage_destroyed ?w" "calls ?w 100 = Some (Some (Suc 0))"
    "use_count ?w (Suc 0) = 2"
    "trace ?w = []"
    using the_call_registry
    by (simp_all add: get_call_def verboseStateCheck_def verboseCheckOwnership_def
        ptr_use_count_def shared_copy_def logAssert_def Let_def)
  have "use_count ?w (Suc 0) + 1 \<noteq> 2"
    using w(3) by simp
  from get_returns_empty_guard_on_ownership_violation [OF w(1,2) this, of env_ok] a w(3,4)
  show ?thesis
    by simp
qed

theorem third_acquire_counterexample:
  "fst (get_call 100 the_call) = Some 1
   \<and> use_count (snd (get_call 100 the_call)) 1 = 2
   \<and> fst (get_call 100 (snd (get_call 100 the_call))) = None"
  using the_call_registry
  by (simp add: get_call_def verboseStateCheck_def verboseCheckOwnership_def
      ptr_use_count_def shared_copy_def shared_release_def call_guard_dtor_def logAssert_def
      Let_def)


lemmas param_defs = param_in_def param_out_def param_verboseCheckNoErr_def logAssert_def
  Let_def world0_def env_ok_def MAX_CALL_BODY_SIZE_def unmarshal_native_def unmarshal_S_def
  unmarshal_I_def

lemma the_call_cleanups:
  "map cleanup (params (call_obj the_call (Suc 0)))
     = map binding_cleanup [In_binding, Out_binding 108 TYPE_S, Out_binding 116 TYPE_I]"
  by (simp add: the_call_params cleanup_param_in cleanup_param_out_raw)

lemma the_call_names:
  "map param_t.name (params (call_obj the_call (Suc 0))) = [''resourceType'', ''text'', ''status'']"
  using the_call_params by (simp add: param_defs)

lemma the_call_unmarshal:
  "unmarshal_cells (params (call_obj the_call (Suc 0))) [GString s, GInt32 i] c
     = (True, c(108 := VString s, 116 := VInt32 i))" if "c 108 = VString a" "c 116 = VInt32 b"
  using the_call_params that by (simp add: param_defs)

lemma the_call_unmarshal_fails:
  "\<not> fst (unmarshal_cells (params (call_obj the_call (Suc 0))) [GString s, GString s'] c)"
  if "c 108 = VString a" "c 116 = VInt32 b"
  using the_call_params that by (simp add: param_defs)

text \<open>The state after a successful call: the outputs hold the reply.\<close>

definition after_success :: world where
  "after_success = snd (callSync env_ok 100 the_call)"

lemma env_valid:
  "\<forall>k obj. g_dbus_proxy_new_for_bus_sync env_ok k obj = None"
  "\<forall>k obj. g_dbus_proxy_new_for_bus_sync env_two_strings k obj = None"
  by (simp_all add: env_defs)

lemma first_call_succeeds:
  "fst (callSync env_ok 100 the_call)"
  "cells after_success = (cells the_call)(108 := VString ''hello'', 116 := VInt32 7)"
proof -
  have r: "\<forall>pid m t. g_dbus_proxy_call_sync env_ok (n_calls the_call) pid m t
             = Inr (GTuple [GString ''hello'', GInt32 7])"
    by (simp add: env_defs)
  note c = callSync_reply [OF the_call_registry(1,2,3) the_call_marshals env_valid(1) r]
  show ok: "fst (callSync env_ok 100 the_call)"
    using c(1) by (simp add: the_call_unmarshal [OF the_call_cells(2,3)])
  show "cells after_success = (cells the_call)(108 := VString ''hello'', 116 := VInt32 7)"
    using c(2) [OF ok] by (simp add: after_success_def the_call_unmarshal [OF the_call_cells(2,3)])
qed

lemma after_success_registry:
  "\<not> storage_destroyed after_success" "calls after_success = calls the_call"
  "use_count after_success (Suc 0) = 1" "call_obj after_success = call_obj the_call"
  unfolding after_success_def by (rule callSync_registry [OF the_call_registry(1,2,3)])+

lemma second_call_fails: "\<not> fst (callSync env_two_strings 100 after_success)"
proof -
  have c: "calls after_success 100 = Some (Some (Suc 0))"
    by (simp add: after_success_registry the_call_registry)
  have m: "\<forall>p \<in> set (params (call_obj after_success (Suc 0))).
             \<forall>m. marshal p = Some m \<longrightarrow> m (cells after_success) \<noteq> None"
    using the_call_params the_call_cells
    by (simp add: after_success_registry first_call_succeeds param_defs marshal_native_def
        marshal_S_def g_variant_new_string_def ext0_def)
  have r: "\<forall>pid m t. g_dbus_proxy_call_sync env_two_strings (n_calls after_success) pid m t
             = Inr (GTuple [GString ''fresh'', GString ''oops''])"
    by (simp add: env_defs)
  have "\<not> fst (unmarshal_cells (params (call_obj after_success (Suc 0)))
                 [GString ''fresh'', GString ''oops''] (cells after_success))"
    unfolding after_success_registry(4)
    by (rule the_call_unmarshal_fails [where a = "''hello''" and b = 7])
       (simp_all add: first_call_succeeds)
  then show ?thesis
    using callSync_reply(1) [OF after_success_registry(1) c after_success_registry(3) m
        env_valid(2) r]
    by simp
qed

lemma rejected_reply_fails: "\<not> fst (callSync env_two_strings 100 the_call)"
proof -
  have r: "\<forall>pid m t. g_dbus_proxy_call_sync env_two_strings (n_calls the_call) pid m t
             = Inr (GTuple [GString ''fresh'', GString ''oops''])"
    by (simp add: env_defs)
  have "\<not> fst (unmarshal_cells (params (call_obj the_call (Suc 0)))
                 [GString ''fresh'', GString ''oops''] (cells the_call))"
    by (rule the_call_unmarshal_fails [OF the_call_cells(2,3)])
  then show ?thesis
    using callSync_reply(1) [OF the_call_registry(1,2,3) the_call_marshals env_valid(2) r]
    by simp
qed

text \<open>
  Two calls that the registry does not serve: on the object at 100 after the registry
  has been torn down, and on a copy of that object at 300 (outputs at 308 and 316),
  which no constructor registered.
\<close>

definition torn_down :: world where
  "torn_down = after_success\<lparr>storage_destroyed := True\<rparr>"

definition with_copy :: world where
  "with_copy = after_success\<lparr>cells := (cells after_success)(308 := VString ''hello'', 316 := VInt32 7)\<rparr>"

lemma not_served:
  "fst (get_call 100 torn_down) = None" "fst (get_call 300 with_copy) = None"
  "cells torn_down 108 = VString ''hello''" "cells torn_down 116 = VInt32 7"
  "cells with_copy 308 = VString ''hello''" "cells with_copy 316 = VInt32 7"
proof -
  have "calls the_call 300 = None"
    by (simp add: the_call_def ctor_defs)
  then have c: "calls with_copy 300 = None"
    by (simp add: with_copy_def after_success_registry)
  have d: "\<not> storage_destroyed with_copy"
    by (simp add: with_copy_def after_success_registry)
  show "fst (get_call 100 torn_down) = None"
    by (simp add: get_call_def verboseStateCheck_def logAssert_def torn_down_def)
  show "fst (get_call 300 with_copy) = None"
    using c d
    by (simp add: get_call_def verboseStateCheck_def logAssert_def Let_def shared_copy_def
        verboseCheckOwnership_def ptr_use_count_def)
  show "cells torn_down 108 = VString ''hello''" "cells torn_down 116 = VInt32 7"
    "cells with_copy 308 = VString ''hello''" "cells with_copy 316 = VInt32 7"
    by (simp_all add: torn_down_def with_copy_def first_call_succeeds)
qed

theorem callSync_resets_outputs_once_acquired_witness:
  "cells the_call 108 = VString ''initial'' \<and> cells the_call 116 = VInt32 5
   \<and> \<not> fst (callSync env_two_strings 100 the_call)
   \<and> cells (snd (callSync env_two_strings 100 the_call)) 108 = VString []
   \<and> cells (snd (callSync env_two_strings 100 the_call)) 116 = VInt32 0
   \<and> resets (snd (callSync env_two_strings 100 the_call))
       = [''resourceType'', ''text'', ''status'']
   \<and> fst (callSync env_ok 100 the_call)
   \<and> resets (snd (callSync env_ok 100 the_call)) = []
   \<and> cells (snd (callSync env_ok 100 the_call)) 108 = VString ''hello''
   \<and> cells (snd (callSync env_ok 100 the_call)) 116 = VInt32 7
   \<and> \<not> fst (callSync env_two_strings 100 after_success)
   \<and> cells (snd (callSync env_two_strings 100 after_success)) 108 = VString []
   \<and> cells (snd (callSync env_two_strings 100 after_success)) 116 = VInt32 0
   \<and> resets (snd (callSync env_two_strings 100 after_success))
       = [''resourceType'', ''text'', ''status'']
   \<and> \<not> fst (callSync env_ok 100 torn_down)
   \<and> cells (snd (callSync env_ok 100 torn_down)) 108 = VString ''hello''
   \<and> resets (snd (callSync env_ok 100 torn_down)) = []
   \<and> \<not> fst (callSync env_ok 300 with_copy)
   \<and> cells (snd (callSync env_ok 300 with_copy)) 308 = VString ''hello''
   \<and> resets (snd (callSync env_ok 300 with_copy)) = []"
proof -
  let ?bs = "[In_binding, Out_binding 108 TYPE_S, Out_binding 116 TYPE_I]"
  have d: "distinct (map fst (out_cells ?bs))"
    by simp
  have a1: "fst (get_call 100 the_call) = Some (Suc 0)"
    by (rule get_call_registered [OF the_call_registry(1,2,3)])
  have c2: "calls after_success 100 = Some (Some (Suc 0))"
    by (simp add: after_success_registry the_call_registry)
  have a2: "fst (get_call 100 after_success) = Some (Suc 0)"
    by (rule get_call_registered [OF after_success_registry(1) c2 after_success_registry(3)])
  have k2: "map cleanup (params (call_obj after_success (Suc 0))) = map binding_cleanup ?bs"
    by (simp add: after_success_registry the_call_cleanups)
  have r0: "resets the_call = []"
    by (simp add: resets_def the_call_registry List.map_filter_simps)
  have t0: "cells (snd (callSync env_two_strings 100 the_call)) 108 = VString []
      \<and> cells (snd (callSync env_two_strings 100 the_call)) 116 = VInt32 0
      \<and> resets (snd (callSync env_two_strings 100 the_call))
          = [''resourceType'', ''text'', ''status'']"
    using callSync_resets_outputs_once_acquired
        [of 100 the_call env_two_strings "Suc 0" ?bs]
      a1 the_call_cleanups d rejected_reply_fails r0
    by (simp add: the_call_names)
  have t1: "resets (snd (callSync env_ok 100 the_call)) = []"
    using callSync_resets_outputs_once_acquired [of 100 the_call env_ok "Suc 0" ?bs]
      a1 the_call_cleanups d first_call_succeeds(1) r0
    by simp
  have t2: "cells (snd (callSync env_two_strings 100 after_success)) 108 = VString []
      \<and> cells (snd (callSync env_two_strings 100 after_success)) 116 = VInt32 0
      \<and> resets (snd (callSync env_two_strings 100 after_success))
          = [''resourceType'', ''text'', ''status'']"
    using callSync_resets_outputs_once_acquired
        [of 100 after_success env_two_strings "Suc 0" ?bs]
      a2 k2 d second_call_fails t1
    by (simp add: after_success_def [symmetric] after_success_registry the_call_names)
  have rt: "resets torn_down = []" "resets with_copy = []"
    using t1 by (simp_all add: resets_def torn_down_def with_copy_def after_success_def)
  have t3: "\<not> fst (callSync env_ok 100 torn_down)
      \<and> cells (snd (callSync env_ok 100 torn_down)) 108 = VString ''hello''
      \<and> resets (snd (callSync env_ok 100 torn_down)) = []"
    using callSync_resets_outputs_once_acquired [of 100 torn_down env_ok "Suc 0" ?bs]
      not_served rt
    by simp
  have t4: "\<not> fst (callSync env_ok 300 with_copy)
      \<and> cells (snd (callSync env_ok 300 with_copy)) 308 = VString ''hello''
      \<and> resets (snd (callSync env_ok 300 with_copy)) = []"
    using callSync_resets_outputs_once_acquired [of 300 with_copy env_ok "Suc 0" ?bs]
      not_served rt
    by simp
  show ?thesis
    using the_call_cells first_call_succeeds t0 t1 t2 t3 t4 second_call_fails rejected_reply_fails
    by (simp add: after_success_def [symmetric])
qed

theorem no_reset_without_descriptor_counterexample:
  "\<not> fst (callSync env_ok 100 torn_down)
   \<and> cells (snd (callSync env_ok 100 torn_down)) 108 = VString ''hello''
   \<and> cells (snd (callSync env_ok 100 torn_down)) 116 = VInt32 7
   \<and> \<not> fst (callSync env_ok 300 with_copy)
   \<and> cells (snd (callSync env_ok 300 with_copy)) 308 = VString ''hello''
   \<and> cells (snd (callSync env_ok 300 with_copy)) 316 = VInt32 7
   \<and> default_value TYPE_S \<noteq> VString ''hello'' \<and> default_value TYPE_I \<noteq> VInt32 7"
proof -
  have "calls the_call 300 = None"
    by (simp add: the_call_def ctor_defs)
  then have c: "calls with_copy 300 = None"
    by (simp add: with_copy_def after_success_registry)
  have d: "\<not> storage_destroyed with_copy"
    by (simp add: with_copy_def after_success_registry)
  show ?thesis
    using c d
    by (simp add: callSync_def get_call_def verboseStateCheck_def logAssert_def Let_def
        torn_down_def with_copy_def first_call_succeeds shared_copy_def
        verboseCheckOwnership_def ptr_use_count_def)
qed


section \<open>The signal loop and the endpoint pool on concrete states\<close>

theorem wait_after_stop_returns_false_witness:
  "waitAndProcessSignals env_ok (Suc 3) 100 (stopProcessingSignals env_ok world0)
     = Some (False, stopProcessingSignals env_ok world0)
   \<and> \<not> loop_ptr (stopProcessingSignals env_ok world0)"
  using wait_after_stop_returns_false [of env_ok world0 env_ok 3 100] by simp

text \<open>
  In a fresh process, a first wait of 100 ms creates the loop, iterates it three times
  (40 ms each) and returns true. After \<^verbatim>\<open>stopProcessingSignals\<close> the same wait
  returns false.
\<close>

definition first_wait :: "(bool \<times> world) option" where
  "first_wait = waitAndProcessSignals env_ok (Suc (Suc (Suc (Suc 0)))) 100 world0"

theorem wait_after_stop_counterexample:
  "map_option fst first_wait = Some True
   \<and> map_option (n_iterations \<circ> snd) first_wait = Some 3
   \<and> map_option fst
        (waitAndProcessSignals env_ok (Suc (Suc (Suc (Suc 0)))) 100
           (stopProcessingSignals env_ok (snd (the first_wait))))
      = Some False"
proof -
  have a: "map_option fst first_wait = Some True
      \<and> map_option (n_iterations \<circ> snd) first_wait = Some 3"
    by (simp add: first_wait_def waitAndProcessSignals_def mainLoopInstance_def
        g_main_context_iteration_def env_ok_def world0_def WAIT_FOREVER_def Let_def)
  let ?w = "stopProcessingSignals env_ok (snd (the first_wait))"
  have "mainLoopInstance env_ok ?w = (False, ?w)"
    using stopped_state [of env_ok "snd (the first_wait)"]
    by (simp add: mainLoopInstance_torn_down)
  then have "waitAndProcessSignals env_ok (Suc (Suc (Suc (Suc 0)))) 100 ?w = Some (False, ?w)"
    by (simp add: waitAndProcessSignals_def)
  then show ?thesis
    using a by simp
qed

definition obj0 :: obj_desc_t where
  "obj0 = fromName ''com.example.svc''"

definition obj1 :: obj_desc_t where
  "obj1 = fromName ''org.other''"

theorem endpoint_pool_lookup_policies_witness:
  "target_of obj0 = ''com.example.svc /com/example/svc com.example.svc''
   \<and> target_of obj1 \<noteq> target_of obj0
   \<and> obj0 = \<lparr>name = ''com.example.svc'', path = ''/com/example/svc'',
               iface = ''com.example.svc''\<rparr>
   \<and> proxies world0 (target_of obj0) = None
   \<and> proxy (fst (instanceFor env_ok obj0 USE_EXISTING world0)) = Some 1
   \<and> n_proxies (snd (instanceFor env_ok obj0 USE_EXISTING world0)) = 1
   \<and> proxies (snd (instanceFor env_ok obj0 USE_EXISTING world0)) (target_of obj0)
       = Some (fst (instanceFor env_ok obj0 USE_EXISTING world0))
   \<and> proxies (snd (instanceFor env_ok obj0 USE_EXISTING world0)) (target_of obj1) = None
   \<and> instanceFor env_ok obj0 USE_EXISTING (snd (instanceFor env_ok obj0 USE_EXISTING world0))
       = (fst (instanceFor env_ok obj0 USE_EXISTING world0),
          snd (instanceFor env_ok obj0 USE_EXISTING world0))
   \<and> lookups env_ok obj0 2 (snd (instanceFor env_ok obj0 USE_EXISTING world0))
       = (replicate 2 (fst (instanceFor env_ok obj0 USE_EXISTING world0)),
          snd (instanceFor env_ok obj0 USE_EXISTING world0))
   \<and> proxy (fst (instanceFor env_ok obj0 RECREATE
                    (snd (instanceFor env_ok obj0 USE_EXISTING world0)))) = Some 2
   \<and> n_proxies (snd (instanceFor env_ok obj0 RECREATE
                    (snd (instanceFor env_ok obj0 USE_EXISTING world0)))) = 2
   \<and> proxies (snd (instanceFor env_ok obj0 RECREATE
                      (snd (instanceFor env_ok obj0 USE_EXISTING world0)))) (target_of obj0)
       = Some (fst (instanceFor env_ok obj0 RECREATE
                      (snd (instanceFor env_ok obj0 USE_EXISTING world0))))"
proof -
  let ?q1 = "fst (instanceFor env_ok obj0 USE_EXISTING world0)"
  let ?w1 = "snd (instanceFor env_ok obj0 USE_EXISTING world0)"
  let ?o = "\<lparr>name = ''com.example.svc'', path = ''/com/example/svc'',
             iface = ''com.example.svc''\<rparr>"
  note A = endpoint_pool_lookup_policies [where E = env_ok and obj = obj0 and w = world0
      and n = 2 and obj' = ?o and policy = USE_EXISTING and t = "target_of obj1" and q = ?q1]
  note B = endpoint_pool_lookup_policies [where E = env_ok and obj = obj0 and w = ?w1
      and n = 2 and obj' = ?o and policy = RECREATE and t = "target_of obj1" and q = ?q1]
  have e: "proxies world0 t = None" "n_proxies world0 = 0" for t
    by (simp_all add: world0_def)
  have ok: "g_dbus_proxy_new_for_bus_sync env_ok k obj = None" for k obj
    by (simp add: env_ok_def)
  have sp: "CHR '' '' \<notin> set (obj_desc_t.name obj0)" "CHR '' '' \<notin> set (path obj0)"
    "CHR '' '' \<notin> set (obj_desc_t.name ?o)" "CHR '' '' \<notin> set (path ?o)"
    "target_of obj0 = target_of ?o"
    by (simp_all add: obj0_def fromName_def target_of_def)
  have t0: "target_of obj0 = ''com.example.svc /com/example/svc com.example.svc''"
    using A by (simp add: obj0_def fromName_def)
  have ne: "target_of obj1 \<noteq> target_of obj0"
    by (simp add: obj0_def obj1_def fromName_def target_of_def)
  have eq: "obj0 = ?o"
    using A sp by blast
  have c1: "proxy ?q1 = Some 1 \<and> n_proxies ?w1 = 1"
    using A e ok by simp
  have en: "proxies ?w1 (target_of obj0) = Some ?q1"
    using A by blast
  have fr: "proxies ?w1 (target_of obj1) = None"
    using A ne e by simp
  have ca: "instanceFor env_ok obj0 USE_EXISTING ?w1 = (?q1, ?w1)"
    using B en c1 by simp
  have lk: "lookups env_ok obj0 2 ?w1 = (replicate 2 ?q1, ?w1)"
    using A c1 by simp
  have rc: "proxy (fst (instanceFor env_ok obj0 RECREATE ?w1)) = Some 2
            \<and> n_proxies (snd (instanceFor env_ok obj0 RECREATE ?w1)) = 2"
    using B c1 ok by simp
  have re: "proxies (snd (instanceFor env_ok obj0 RECREATE ?w1)) (target_of obj0)
              = Some (fst (instanceFor env_ok obj0 RECREATE ?w1))"
    using B by blast
  show ?thesis
    using t0 ne eq e c1 en fr ca lk rc re by blast
qed

end
